theory Spec2Isabelle
  imports Complex_Main
begin

section \<open>Constants of the arena server\<close>

text \<open>
  The server (src/index.ts) keeps all of its state in module-level variables. The
  constants are small integers, and every expression of constants only
  (\<open>ARENA_WIDTH - PLAYER_SIZE\<close>, \<open>ARENA_WIDTH / 2 - 100\<close>, ...) is exact in double
  arithmetic: they are reals here. The counter of the timer and the millisecond
  timestamps are integers far below \<open>2^53\<close>, where double arithmetic is exact: they
  are \<^typ>\<open>int\<close>. Coordinates are JavaScript numbers, modelled in the next section.
\<close>

definition PLAYER_SIZE :: real where
  "PLAYER_SIZE = 64"

definition ARENA_WIDTH :: real where
  "ARENA_WIDTH = 1200"

definition ARENA_HEIGHT :: real where
  "ARENA_HEIGHT = 600"

definition MAX_SPAWN_ATTEMPTS :: nat where
  "MAX_SPAWN_ATTEMPTS = 100"

definition BROADCAST_RATE :: int where
  "BROADCAST_RATE = 50"

section \<open>JavaScript numbers\<close>

text \<open>
  A JavaScript number is an IEEE 754 double: \<open>NaN\<close>, an infinity, or a finite value,
  which is a real number. The sign of zero is not modelled; nothing in the server tells
  \<open>-0\<close> from \<open>0\<close>.
\<close>

datatype jsnum = NaN | NegInf | Fin real | PosInf

text \<open>
  The result of an arithmetic operation is the exact result rounded to the nearest
  double, ties to the even significand. \<open>binade x\<close> is the exponent of \<open>x\<close>, not
  below -1022 (the subnormal range), \<open>ulp x\<close> the distance between neighbouring doubles
  there (53 bits of significand), and a rounded value of magnitude \<open>2^1024\<close> or more is
  an infinity.
\<close>

definition roundTiesToEven :: "real \<Rightarrow> int" where
  "roundTiesToEven q =
     (let f = \<lfloor>q\<rfloor>; d = q - of_int f in
      if d < 1 / 2 then f else if d > 1 / 2 then f + 1 else if even f then f else f + 1)"

definition binade :: "real \<Rightarrow> int" where
  "binade x = max \<lfloor>log 2 \<bar>x\<bar>\<rfloor> (- 1022)"

definition ulp :: "real \<Rightarrow> real" where
  "ulp x = 2 powr (of_int (binade x) - 52)"

definition round_double :: "real \<Rightarrow> real" where
  "round_double x = (if x = 0 then 0 else ulp x * of_int (roundTiesToEven (x / ulp x)))"

definition fl :: "real \<Rightarrow> jsnum" where
  "fl x =
     (let r = round_double x in
      if r \<ge> 2 ^ 1024 then PosInf else if r \<le> - (2 ^ 1024) then NegInf else Fin r)"

text \<open>The comparisons \<open><\<close> and \<open><=\<close>: false when an operand is \<open>NaN\<close>.\<close>

fun js_lt :: "jsnum \<Rightarrow> jsnum \<Rightarrow> bool" where
  "js_lt (Fin a) (Fin b) = (a < b)"
| "js_lt NegInf (Fin b) = True"
| "js_lt NegInf PosInf = True"
| "js_lt (Fin a) PosInf = True"
| "js_lt _ _ = False"


text \<open>\<open>a + b\<close> on numbers.\<close>

fun js_add :: "jsnum \<Rightarrow> jsnum \<Rightarrow> jsnum" where
  "js_add (Fin a) (Fin b) = fl (a + b)"
| "js_add NaN _ = NaN"
| "js_add _ NaN = NaN"
| "js_add PosInf NegInf = NaN"
| "js_add NegInf PosInf = NaN"
| "js_add PosInf _ = PosInf"
| "js_add _ PosInf = PosInf"
| "js_add NegInf _ = NegInf"
| "js_add _ NegInf = NegInf"

text \<open>\<open>a * b\<close>. Every product of the source has \<open>Math.random()\<close> and a constant as its
  operands, both finite.\<close>

definition js_mul :: "real \<Rightarrow> real \<Rightarrow> jsnum" where
  "js_mul a b = fl (a * b)"

text \<open>\<open>Math.min\<close>, \<open>Math.max\<close> and \<open>Math.floor\<close>.\<close>

fun js_min :: "jsnum \<Rightarrow> jsnum \<Rightarrow> jsnum" where
  "js_min NaN _ = NaN"
| "js_min _ NaN = NaN"
| "js_min a b = (if js_lt b a then b else a)"

fun js_max :: "jsnum \<Rightarrow> jsnum \<Rightarrow> jsnum" where
  "js_max NaN _ = NaN"
| "js_max _ NaN = NaN"
| "js_max a b = (if js_lt a b then b else a)"

definition js_floor :: "jsnum \<Rightarrow> jsnum" where
  "js_floor a = (case a of Fin x \<Rightarrow> Fin (of_int \<lfloor>x\<rfloor>) | _ \<Rightarrow> a)"

section \<open>Data model\<close>

text \<open>
  \<open>interface Player\<close>. The fields \<open>id\<close>, \<open>x\<close>, \<open>y\<close> and \<open>name\<close> are called
  \<open>pid\<close>, \<open>px\<close>, \<open>py\<close> and \<open>pname\<close>, since a record field is a constant and these
  names are wanted for variables. An optional field is an \<open>option\<close>; \<open>null\<close> and
  \<open>undefined\<close> are both \<open>None\<close>. The coordinates are JavaScript numbers.
\<close>

record player =
  pid :: string
  px :: jsnum
  py :: jsnum
  isInfected :: bool
  pname :: "string option"
  gender :: "string option"
  collidingWith :: "string option"

text \<open>A WebSocket connection, the key of the \<open>players\<close> map.\<close>

type_synonym chan = nat

text \<open>What the server sends: the three outbound message shapes.\<close>

datatype out_msg =
    TimerUpdate int bool bool
  | PlayersMsg string "player list"
  | AnswerFeedback string string bool

text \<open>
  The module-level variables. \<open>players\<close> is a JavaScript \<open>Map\<close>, which iterates in
  insertion order: an association list. \<open>timerInterval\<close> records whether the interval
  handle is set. \<open>broadcastTimeout\<close> holds the instant at which the pending
  \<open>setTimeout\<close> callback is due, or \<open>None\<close> for \<open>null\<close>. \<open>outbox\<close> is the log of
  everything sent: one entry per send loop \<open>for (const ws of players.keys()) ws.send(m)\<close>,
  with the channels the loop visits, in order, and one entry with a single channel for a
  direct \<open>ws.send\<close>.
\<close>

record state =
  players :: "(chan \<times> player) list"
  gameTimer :: int
  gameRunning :: bool
  gamePaused :: bool
  timerInterval :: bool
  lastBroadcastTime :: int
  broadcastPending :: bool
  broadcastTimeout :: "int option"
  outbox :: "(chan list \<times> out_msg) list"

definition initial_state :: state where
  "initial_state =
     \<lparr>players = [], gameTimer = 20, gameRunning = False, gamePaused = False,
      timerInterval = False, lastBroadcastTime = 0, broadcastPending = False,
      broadcastTimeout = None, outbox = []\<rparr>"

subsection \<open>The players map\<close>

text \<open>\<open>players.get(ws)\<close> is \<^term>\<open>map_of\<close>. \<open>players.set(ws, p)\<close> replaces the value of
  an existing key where it stands and appends a new key.\<close>

fun players_set :: "chan \<Rightarrow> player \<Rightarrow> (chan \<times> player) list \<Rightarrow> (chan \<times> player) list" where
  "players_set ws p [] = [(ws, p)]"
| "players_set ws p ((k, v) # es) =
     (if k = ws then (k, p) # es else (k, v) # players_set ws p es)"

text \<open>\<open>players.delete(ws)\<close>.\<close>

definition players_delete :: "chan \<Rightarrow> (chan \<times> player) list \<Rightarrow> (chan \<times> player) list" where
  "players_delete ws es = filter (\<lambda>e. fst e \<noteq> ws) es"

text \<open>A record of the map is an object, mutated in place by the handlers: the mutation
  \<open>f\<close> applied to the value stored under \<open>ws\<close>.\<close>

definition players_modify ::
  "chan \<Rightarrow> (player \<Rightarrow> player) \<Rightarrow> (chan \<times> player) list \<Rightarrow> (chan \<times> player) list" where
  "players_modify ws f es = map (\<lambda>e. if fst e = ws then (fst e, f (snd e)) else e) es"

section \<open>Geometry\<close>

text \<open>\<open>u > v\<close> is \<open>v < u\<close>.\<close>

definition isColliding :: "player \<Rightarrow> player \<Rightarrow> bool" where
  "isColliding a b =
     (let A_WIDTH = 24; A_HEIGHT = 40; B_WIDTH = 24; B_HEIGHT = 40 in
      js_lt (px a) (js_add (px b) (Fin B_WIDTH)) \<and>
      js_lt (px b) (js_add (px a) (Fin A_WIDTH)) \<and>
      js_lt (py a) (js_add (py b) (Fin B_HEIGHT)) \<and>
      js_lt (py b) (js_add (py a) (Fin A_HEIGHT)) \<and>
      isInfected a \<noteq> isInfected b)"

definition isOverlapping :: "player \<Rightarrow> player \<Rightarrow> bool" where
  "isOverlapping a b =
     (js_lt (px a) (js_add (px b) (Fin PLAYER_SIZE)) \<and>
      js_lt (px b) (js_add (px a) (Fin PLAYER_SIZE)) \<and>
      js_lt (py a) (js_add (py b) (Fin PLAYER_SIZE)) \<and>
      js_lt (py b) (js_add (py a) (Fin PLAYER_SIZE)))"

section \<open>The round timer\<close>

definition broadcastTimer :: "state \<Rightarrow> state" where
  "broadcastTimer s =
     s\<lparr>outbox := outbox s @
         [(map fst (players s), TimerUpdate (gameTimer s) (gameRunning s) (gamePaused s))]\<rparr>"

definition stopTimer :: "state \<Rightarrow> state" where
  "stopTimer s =
     broadcastTimer
       (s\<lparr>timerInterval := False, gameRunning := False, gamePaused := False,
          gameTimer := 20\<rparr>)"

definition pauseTimer :: "state \<Rightarrow> state" where
  "pauseTimer s = broadcastTimer (s\<lparr>gamePaused := True\<rparr>)"

definition resumeTimer :: "state \<Rightarrow> state" where
  "resumeTimer s = broadcastTimer (s\<lparr>gamePaused := False\<rparr>)"

text \<open>The callback of \<open>setInterval\<close> in \<open>startTimer\<close>; it runs only while the interval
  is set.\<close>

definition tick :: "state \<Rightarrow> state" where
  "tick s =
     (if gamePaused s then s
      else
        let s1 = broadcastTimer (s\<lparr>gameTimer := gameTimer s - 1\<rparr>) in
        if gameTimer s1 \<le> 0
        then broadcastTimer ((stopTimer s1)\<lparr>gameTimer := 20\<rparr>)
        else s1)"

definition startTimer :: "state \<Rightarrow> state" where
  "startTimer s =
     (if timerInterval s then s
      else broadcastTimer
             (s\<lparr>gameRunning := True, gamePaused := False, timerInterval := True\<rparr>))"

section \<open>Roster broadcasts\<close>

text \<open>\<open>Date.now()\<close> is the argument \<open>now\<close> of every function that reads the clock; a
  handler runs at one instant.\<close>

definition broadcastPlayersImmediate :: "string \<Rightarrow> int \<Rightarrow> state \<Rightarrow> state" where
  "broadcastPlayersImmediate type now s =
     s\<lparr>outbox := outbox s @ [(map fst (players s), PlayersMsg type (map snd (players s)))],
       lastBroadcastTime := now\<rparr>"

definition broadcastPlayers :: "string \<Rightarrow> int \<Rightarrow> state \<Rightarrow> state" where
  "broadcastPlayers type now s =
     (if type \<noteq> ''players:update'' then broadcastPlayersImmediate type now s
      else
        let timeSinceLastBroadcast = now - lastBroadcastTime s in
        if timeSinceLastBroadcast \<ge> BROADCAST_RATE
        then (broadcastPlayersImmediate type now s)
               \<lparr>broadcastPending := False, broadcastTimeout := None\<rparr>
        else if \<not> broadcastPending s
        then s\<lparr>broadcastPending := True,
               broadcastTimeout := Some (now + (BROADCAST_RATE - timeSinceLastBroadcast))\<rparr>
        else s)"

text \<open>The callback that \<open>broadcastPlayers\<close> hands to \<open>setTimeout\<close>, run at \<open>now\<close>.\<close>

definition broadcastTimeout_fire :: "int \<Rightarrow> state \<Rightarrow> state" where
  "broadcastTimeout_fire now s =
     (broadcastPlayersImmediate ''players:update'' now s)
       \<lparr>broadcastPending := False, broadcastTimeout := None\<rparr>"

section \<open>The move handler\<close>

text \<open>
  The handler reads \<open>dx\<close> and \<open>dy\<close> from the payload without a check, so a field
  can be any JSON value, or absent. A string, an array or an object turns \<open>x += dx\<close>
  into a string concatenation, and the next statement hands the string to \<open>Math.min\<close>,
  which reads a number from it: such a field is \<open>Text t\<close>, where \<open>t x\<close> is the number
  read from the text of \<open>x\<close> followed by the field's text (\<open>NaN\<close> when it is not the
  text of a number).
\<close>

datatype field = Absent | Null | Boolean bool | Number jsnum | Text "jsnum \<Rightarrow> jsnum"

text \<open>
  The number that the clamp receives after \<open>x += f\<close>. An absent field is
  \<open>undefined\<close>, and a number plus \<open>undefined\<close> is \<open>NaN\<close>; in a sum \<open>null\<close>,
  \<open>false\<close> and \<open>true\<close> are the numbers 0, 0 and 1.
\<close>

definition plus_field :: "jsnum \<Rightarrow> field \<Rightarrow> jsnum" where
  "plus_field x f =
     (case f of
        Absent \<Rightarrow> NaN
      | Null \<Rightarrow> js_add x (Fin 0)
      | Boolean b \<Rightarrow> js_add x (Fin (if b then 1 else 0))
      | Number d \<Rightarrow> js_add x d
      | Text t \<Rightarrow> t x)"

text \<open>Lines 235 to 254: the movement, the clamp, the optional infection flag and the
  reset of the mover's own collision marker.\<close>

definition apply_movement :: "field \<Rightarrow> field \<Rightarrow> bool option \<Rightarrow> player \<Rightarrow> player" where
  "apply_movement dx dy isInf p =
     (let p1 = p\<lparr>px := plus_field (px p) dx, py := plus_field (py p) dy\<rparr>;
          p2 = p1\<lparr>px := js_max (Fin 0) (js_min (px p1) (Fin (ARENA_WIDTH - PLAYER_SIZE))),
                  py := js_max (Fin 0) (js_min (py p1) (Fin (ARENA_HEIGHT - PLAYER_SIZE)))\<rparr>;
          p3 = (case isInf of Some b \<Rightarrow> p2\<lparr>isInfected := b\<rparr> | None \<Rightarrow> p2)
      in p3\<lparr>collidingWith := None\<rparr>)"

text \<open>
  One iteration of the loop over \<open>players.entries()\<close>. The mover is the local \<open>player\<close>;
  the other record is mutated where it is stored. Nothing reads the mover's entry of the
  map during the loop, so the mover is carried beside the state and stored by the
  \<open>players.set\<close> that follows the loop.
\<close>

definition collideWith :: "chan \<Rightarrow> chan \<times> player \<Rightarrow> player \<times> state \<Rightarrow> player \<times> state" where
  "collideWith ws e ps =
     (case e of (otherWs, otherPlayer) \<Rightarrow>
      case ps of (player, s) \<Rightarrow>
        if otherWs = ws then (player, s)
        else if isColliding player otherPlayer
        then (player\<lparr>collidingWith := Some (pid otherPlayer)\<rparr>,
              pauseTimer
                (s\<lparr>players :=
                     players_modify otherWs (\<lambda>q. q\<lparr>collidingWith := Some (pid player)\<rparr>)
                       (players s)\<rparr>))
        else (player, s))"

definition handle_move :: "chan \<Rightarrow> field \<Rightarrow> field \<Rightarrow> bool option \<Rightarrow> int \<Rightarrow> state \<Rightarrow> state" where
  "handle_move ws dx dy isInf now s =
     (case map_of (players s) ws of
        None \<Rightarrow> s
      | Some p \<Rightarrow>
          (case fold (collideWith ws) (players s) (apply_movement dx dy isInf p, s) of
             (player, s1) \<Rightarrow>
               broadcastPlayers ''players:update'' now
                 (s1\<lparr>players := players_set ws player (players s1)\<rparr>)))"

section \<open>Spawn placement\<close>

definition CENTER_ZONE_x :: real where
  "CENTER_ZONE_x = ARENA_WIDTH / 2 - 100"

definition CENTER_ZONE_y :: real where
  "CENTER_ZONE_y = ARENA_HEIGHT / 2 - 75"

definition CENTER_ZONE_width :: real where
  "CENTER_ZONE_width = 200"

definition CENTER_ZONE_height :: real where
  "CENTER_ZONE_height = 150"

definition EDGE_MARGIN :: real where
  "EDGE_MARGIN = 80"

text \<open>
  \<open>Math.random()\<close> is a stream \<open>rnd\<close> of draws, each a finite number, and a position
  \<open>k\<close> in it: the call returns \<open>rnd k\<close> and moves to \<open>k + 1\<close>. One attempt for an infected player draws
  \<open>x\<close> then \<open>y\<close>; one attempt for a regular player draws the edge, then \<open>x\<close> and \<open>y\<close>
  in the order the \<open>switch\<close> writes them (\<open>x\<close> first in every case).
\<close>

definition candidate :: "bool \<Rightarrow> (nat \<Rightarrow> real) \<Rightarrow> nat \<Rightarrow> jsnum \<times> jsnum" where
  "candidate infected rnd k =
     (if infected
      then (js_add (Fin CENTER_ZONE_x) (js_mul (rnd k) CENTER_ZONE_width),
            js_add (Fin CENTER_ZONE_y) (js_mul (rnd (k + 1)) CENTER_ZONE_height))
      else
        let edge = js_floor (js_mul (rnd k) 4) in
        if edge = Fin 0
        then (js_add (Fin EDGE_MARGIN)
                (js_mul (rnd (k + 1)) (ARENA_WIDTH - 2 * EDGE_MARGIN - PLAYER_SIZE)),
              js_mul (rnd (k + 2)) EDGE_MARGIN)
        else if edge = Fin 1
        then (js_add (Fin EDGE_MARGIN)
                (js_mul (rnd (k + 1)) (ARENA_WIDTH - 2 * EDGE_MARGIN - PLAYER_SIZE)),
              js_add (Fin (ARENA_HEIGHT - EDGE_MARGIN - PLAYER_SIZE))
                (js_mul (rnd (k + 2)) EDGE_MARGIN))
        else if edge = Fin 2
        then (js_mul (rnd (k + 1)) EDGE_MARGIN,
              js_add (Fin EDGE_MARGIN)
                (js_mul (rnd (k + 2)) (ARENA_HEIGHT - 2 * EDGE_MARGIN - PLAYER_SIZE)))
        else (js_add (Fin (ARENA_WIDTH - EDGE_MARGIN - PLAYER_SIZE))
                (js_mul (rnd (k + 1)) EDGE_MARGIN),
              js_add (Fin EDGE_MARGIN)
                (js_mul (rnd (k + 2)) (ARENA_HEIGHT - 2 * EDGE_MARGIN - PLAYER_SIZE))))"

definition draws :: "bool \<Rightarrow> nat" where
  "draws infected = (if infected then 2 else 3)"

text \<open>
  The loop \<open>while (!placed && attempts < MAX_SPAWN_ATTEMPTS)\<close>, written four times in the
  source (twice in the join handler, twice in \<open>resetAllPositions\<close>) with the same
  sampling and the same overlap test. It returns the accepted candidate, or \<open>None\<close> when
  \<open>placed\<close> is still false after the loop, and the position reached in the stream.
\<close>

function spawn_search ::
  "bool \<Rightarrow> (nat \<Rightarrow> real) \<Rightarrow> player list \<Rightarrow> player \<Rightarrow> nat \<Rightarrow> nat \<Rightarrow> (jsnum \<times> jsnum) option \<times> nat" where
  "spawn_search infected rnd placedPlayers player k attempts =
     (if attempts < MAX_SPAWN_ATTEMPTS
      then
        (case candidate infected rnd k of (x, y) \<Rightarrow>
           let tempPlayer = player\<lparr>px := x, py := y\<rparr>;
               overlaps = list_ex (\<lambda>p. isOverlapping tempPlayer p) placedPlayers
           in if \<not> overlaps then (Some (x, y), k + draws infected)
              else spawn_search infected rnd placedPlayers player (k + draws infected)
                     (attempts + 1))
      else (None, k))"
  by pat_completeness auto
termination
  by (relation "measure (\<lambda>(infected, rnd, placedPlayers, player, k, attempts).
        MAX_SPAWN_ATTEMPTS - attempts)") auto

declare spawn_search.simps [simp del]

section \<open>The join handler\<close>

definition handle_join :: "chan \<Rightarrow> player \<Rightarrow> (nat \<Rightarrow> real) \<Rightarrow> int \<Rightarrow> state \<Rightarrow> state" where
  "handle_join ws player rnd now s =
     (let placedPlayers = map snd (players s);
          player' =
            (if isInfected player
             then (case fst (spawn_search True rnd placedPlayers player 0 0) of
                     Some (x, y) \<Rightarrow> player\<lparr>px := x, py := y\<rparr>
                   | None \<Rightarrow> player\<lparr>px := Fin (ARENA_WIDTH / 2 - PLAYER_SIZE / 2),
                                      py := Fin (ARENA_HEIGHT / 2 - PLAYER_SIZE / 2)\<rparr>)
             else (case fst (spawn_search False rnd placedPlayers player 0 0) of
                     Some (x, y) \<Rightarrow> player\<lparr>px := x, py := y\<rparr>
                   | None \<Rightarrow> player\<lparr>px := Fin EDGE_MARGIN, py := Fin EDGE_MARGIN\<rparr>));
          s1 = broadcastPlayersImmediate ''players:update'' now
                 (s\<lparr>players := players_set ws player' (players s)\<rparr>)
      in s1\<lparr>outbox := outbox s1 @
               [([ws], TimerUpdate (gameTimer s1) (gameRunning s1) (gamePaused s1))]\<rparr>)"

section \<open>The reset sweep\<close>

text \<open>
  The body of one \<open>for (const player of ...)\<close> iteration of \<open>resetAllPositions\<close>: the
  search, and on success the three assignments and the push on \<open>placedPlayers\<close>. On
  failure the source only calls \<open>console.warn\<close>. The accumulator is the position in
  the stream of draws and \<open>placedPlayers\<close>.
\<close>

definition reset_player ::
  "bool \<Rightarrow> (nat \<Rightarrow> real) \<Rightarrow> player \<Rightarrow> nat \<times> player list \<Rightarrow> player \<times> (nat \<times> player list)" where
  "reset_player infected rnd player acc =
     (case acc of (k, placedPlayers) \<Rightarrow>
       (case spawn_search infected rnd placedPlayers player k 0 of
          (Some (x, y), k') \<Rightarrow>
            let player' = player\<lparr>px := x, py := y, collidingWith := None\<rparr>
            in (player', (k', placedPlayers @ [player']))
        | (None, k') \<Rightarrow> (player, (k', placedPlayers))))"

text \<open>
  One of the two loops. \<open>infectedPlayers\<close> and \<open>regularPlayers\<close> are filters of
  \<open>players.values()\<close>, in map order, and the loop mutates the records it visits in
  place: the pass walks the entries of the map in order and changes those the filter
  selects.
\<close>

fun reset_pass ::
  "bool \<Rightarrow> (nat \<Rightarrow> real) \<Rightarrow> (chan \<times> player) list \<Rightarrow> nat \<times> player list \<Rightarrow>
     (chan \<times> player) list \<times> (nat \<times> player list)" where
  "reset_pass infected rnd [] acc = ([], acc)"
| "reset_pass infected rnd ((ws, player) # es) acc =
     (if isInfected player = infected
      then (case reset_player infected rnd player acc of
              (player', acc') \<Rightarrow>
                (case reset_pass infected rnd es acc' of
                   (es', acc'') \<Rightarrow> ((ws, player') # es', acc'')))
      else (case reset_pass infected rnd es acc of
              (es', acc'') \<Rightarrow> ((ws, player) # es', acc'')))"

definition resetAllPositions :: "(nat \<Rightarrow> real) \<Rightarrow> state \<Rightarrow> state" where
  "resetAllPositions rnd s =
     (case reset_pass True rnd (players s) (0, []) of
        (es1, acc1) \<Rightarrow>
          (case reset_pass False rnd es1 acc1 of
             (es2, acc2) \<Rightarrow> s\<lparr>players := es2\<rparr>))"

section \<open>The other handlers and the dispatcher\<close>

definition handle_gender :: "string \<Rightarrow> string option \<Rightarrow> int \<Rightarrow> state \<Rightarrow> state" where
  "handle_gender playerId g now s =
     (if gameRunning s then s
      else broadcastPlayersImmediate ''players:update'' now
             (s\<lparr>players :=
                  map (\<lambda>e. if pid (snd e) = playerId then (fst e, (snd e)\<lparr>gender := g\<rparr>) else e)
                    (players s)\<rparr>))"

definition handle_infect :: "string \<Rightarrow> (nat \<Rightarrow> real) \<Rightarrow> int \<Rightarrow> state \<Rightarrow> state" where
  "handle_infect playerId rnd now s =
     resumeTimer
       (broadcastPlayers ''players:reset'' now
          (resetAllPositions rnd
             (s\<lparr>players :=
                  map (\<lambda>e. if pid (snd e) = playerId
                            then (fst e, (snd e)\<lparr>isInfected := True\<rparr>) else e)
                    (players s)\<rparr>)))"

definition handle_answer_correct :: "(nat \<Rightarrow> real) \<Rightarrow> int \<Rightarrow> state \<Rightarrow> state" where
  "handle_answer_correct rnd now s =
     resumeTimer (broadcastPlayers ''players:reset'' now (resetAllPositions rnd s))"

definition handle_answer_feedback :: "string \<Rightarrow> string \<Rightarrow> bool \<Rightarrow> state \<Rightarrow> state" where
  "handle_answer_feedback playerId playerName isCorrect s =
     s\<lparr>outbox := outbox s @
         [(map fst (players s), AnswerFeedback playerId playerName isCorrect)]\<rparr>"

text \<open>The inbound messages, by their \<open>type\<close>; any other type is \<open>Unknown\<close>.\<close>

datatype in_msg =
    Join player
  | GameStart
  | GameStop
  | PlayerGender string "string option"
  | Move field field "bool option"
  | PlayerInfect string
  | AnswerCorrect
  | AnswerFeedbackIn string string bool
  | Unknown

text \<open>\<open>websocket.message\<close>: the handler of one inbound message on the channel \<open>ws\<close>, with
  the draws and the clock it reads.\<close>

fun message :: "chan \<Rightarrow> in_msg \<Rightarrow> (nat \<Rightarrow> real) \<Rightarrow> int \<Rightarrow> state \<Rightarrow> state" where
  "message ws (Join player) rnd now s = handle_join ws player rnd now s"
| "message ws GameStart rnd now s = startTimer s"
| "message ws GameStop rnd now s = stopTimer s"
| "message ws (PlayerGender playerId g) rnd now s = handle_gender playerId g now s"
| "message ws (Move dx dy isInf) rnd now s = handle_move ws dx dy isInf now s"
| "message ws (PlayerInfect playerId) rnd now s = handle_infect playerId rnd now s"
| "message ws AnswerCorrect rnd now s = handle_answer_correct rnd now s"
| "message ws (AnswerFeedbackIn playerId playerName isCorrect) rnd now s =
     handle_answer_feedback playerId playerName isCorrect s"
| "message ws Unknown rnd now s = s"

text \<open>\<open>websocket.close\<close>.\<close>

definition close :: "chan \<Rightarrow> int \<Rightarrow> state \<Rightarrow> state" where
  "close ws now s =
     broadcastPlayersImmediate ''players:update'' now
       (s\<lparr>players := players_delete ws (players s)\<rparr>)"

section \<open>The event loop\<close>

text \<open>
  The server is single-threaded: its behaviour is a sequence of events, each run to its
  end. An event is an inbound message, a closed connection, a firing of the timer's
  interval (possible only while the interval is set) or a firing of the throttler's
  timeout (possible only while one is pending).
\<close>

datatype event =
    Message chan in_msg "nat \<Rightarrow> real" int
  | Close chan int
  | Tick
  | TimeoutFire int

fun step :: "event \<Rightarrow> state \<Rightarrow> state option" where
  "step (Message ws m rnd now) s = Some (message ws m rnd now s)"
| "step (Close ws now) s = Some (close ws now s)"
| "step Tick s = (if timerInterval s then Some (tick s) else None)"
| "step (TimeoutFire now) s =
     (if broadcastTimeout s \<noteq> None then Some (broadcastTimeout_fire now s) else None)"

fun run :: "event list \<Rightarrow> state \<Rightarrow> state option" where
  "run [] s = Some s"
| "run (e # es) s = (case step e s of None \<Rightarrow> None | Some s' \<Rightarrow> run es s')"

section \<open>The reduced hitbox, as the specification words it\<close>

text \<open>
  The specification's collision test: the reduced hitbox of a player is the rectangle
  24 wide and 40 tall anchored at its stored position, and two hitboxes intersect
  strictly when their interiors share a point. The rectangle is a set of points of the
  plane, with exact sums; a player whose position is not finite has none.
\<close>

definition hitbox :: "player \<Rightarrow> (real \<times> real) set" where
  "hitbox a =
     (case (px a, py a) of
        (Fin x, Fin y) \<Rightarrow> {(u, v). x < u \<and> u < x + 24 \<and> y < v \<and> v < y + 40}
      | _ \<Rightarrow> {})"


text \<open>A stored coordinate is a double: when it is finite, rounding leaves it as it is.\<close>

definition is_double :: "jsnum \<Rightarrow> bool" where
  "is_double a = (case a of Fin x \<Rightarrow> fl x = Fin x | _ \<Rightarrow> True)"

text \<open>Two players whose hitboxes overlap by \<open>2^-60\<close>, less than the rounding step of the
  sum \<open>b.x + 24\<close>.\<close>

definition brink_a :: player where
  "brink_a =
     \<lparr>pid = ''a'', px = Fin 24, py = Fin 0, isInfected = False, pname = None, gender = None,
      collidingWith = None\<rparr>"

definition brink_b :: player where
  "brink_b =
     \<lparr>pid = ''b'', px = Fin (1 / 2 ^ 60), py = Fin 0, isInfected = True, pname = None,
      gender = None, collidingWith = None\<rparr>"

section \<open>Concrete states\<close>

definition demo_player :: player where
  "demo_player =
     \<lparr>pid = ''a'', px = Fin 100, py = Fin 50, isInfected = False, pname = None, gender = None,
      collidingWith = None\<rparr>"

definition other_player :: player where
  "other_player =
     \<lparr>pid = ''b'', px = Fin 123, py = Fin 89, isInfected = True, pname = None, gender = None,
      collidingWith = None\<rparr>"

definition expiring_state :: state where
  "expiring_state =
     initial_state\<lparr>players := [(0, demo_player)], gameTimer := 1, gameRunning := True,
       timerInterval := True\<rparr>"



definition twin_state :: state where
  "twin_state =
     initial_state\<lparr>players := [(0, demo_player), (1, demo_player\<lparr>px := Fin 300\<rparr>), (2, other_player)]\<rparr>"

definition sick_one :: player where
  "sick_one =
     \<lparr>pid = ''s1'', px = Fin 10, py = Fin 10, isInfected = True, pname = None, gender = None,
      collidingWith = Some ''h''\<rparr>"

definition sick_two :: player where
  "sick_two =
     \<lparr>pid = ''s2'', px = Fin 700, py = Fin 20, isInfected = True, pname = None, gender = None,
      collidingWith = Some ''h''\<rparr>"

definition crowd_state :: state where
  "crowd_state =
     initial_state\<lparr>players := [(0, sick_one), (1, sick_two)], gameRunning := True,
       gamePaused := True, timerInterval := True\<rparr>"

definition blocked_state :: state where
  "blocked_state = initial_state\<lparr>players := [(0, sick_one\<lparr>px := Fin 500, py := Fin 225\<rparr>)]\<rparr>"

section \<open>What holds of the timer in every reachable state\<close>

text \<open>\<open>running\<close> is true exactly while the interval is set, and the counter is between
  1 and 20.\<close>

definition timer_inv :: "state \<Rightarrow> bool" where
  "timer_inv s \<longleftrightarrow> (gameRunning s \<longleftrightarrow> timerInterval s) \<and> 1 \<le> gameTimer s \<and> gameTimer s \<le> 20"

text \<open>A trace in which two players of opposite infection state join while no round
  runs, and the second walks onto the first.\<close>

definition idle_collision :: "event list" where
  "idle_collision =
     [Message 0 (Join sick_one) (\<lambda>_. 0) 0,
      Message 1 (Join demo_player) (\<lambda>_. 0) 10,
      Message 1 (Move (Number (Fin 420)) (Number (Fin 225)) None) (\<lambda>_. 0) 20]"

section \<open>The throttled path\<close>




section \<open>One attempt of the placement loop\<close>

text \<open>The overlap test of the attempt that starts at position \<open>k\<close> of the stream of
  draws: the \<open>overlaps\<close> of the loop body, for the candidate drawn there.\<close>

definition attempt_overlaps ::
  "bool \<Rightarrow> (nat \<Rightarrow> real) \<Rightarrow> player list \<Rightarrow> player \<Rightarrow> nat \<Rightarrow> bool" where
  "attempt_overlaps infected rnd placedPlayers player k =
     (case candidate infected rnd k of
        (x, y) \<Rightarrow> list_ex (\<lambda>p. isOverlapping (player\<lparr>px := x, py := y\<rparr>) p) placedPlayers)"

section \<open>The effect of the collision loop on the map\<close>

text \<open>What the loop of the move handler does to one entry of the map when the mover has
  the id \<open>i\<close> and the channels in \<open>K\<close> collide with it: the entries of \<open>K\<close> get the
  marker \<open>i\<close>, the others stay.\<close>

definition marked :: "string \<Rightarrow> chan set \<Rightarrow> chan \<times> player \<Rightarrow> chan \<times> player" where
  "marked i K e = (if fst e \<in> K then (fst e, (snd e)\<lparr>collidingWith := Some i\<rparr>) else e)"

section \<open>Rounding to a double\<close>

lemma rte_of_int [simp]: "roundTiesToEven (of_int n) = n"
  by (simp add: roundTiesToEven_def)

lemma rte_bounds: "of_int \<lfloor>q\<rfloor> \<le> (of_int (roundTiesToEven q) :: real) \<and> roundTiesToEven q \<le> \<lfloor>q\<rfloor> + 1"
  by (simp add: roundTiesToEven_def Let_def)

lemma rte_ge: "of_int n \<le> q \<Longrightarrow> n \<le> roundTiesToEven q"
proof -
  assume "of_int n \<le> q"
  then have "n \<le> \<lfloor>q\<rfloor>" by (simp add: le_floor_iff)
  moreover have "\<lfloor>q\<rfloor> \<le> roundTiesToEven q" by (simp add: roundTiesToEven_def Let_def)
  ultimately show ?thesis by simp
qed

lemma rte_le: "q \<le> of_int n \<Longrightarrow> roundTiesToEven q \<le> n"
proof -
  assume h: "q \<le> of_int n"
  show ?thesis
  proof (cases "q = of_int n")
    case True
    then show ?thesis by simp
  next
    case False
    with h have "q < of_int n" by simp
    then have "\<lfloor>q\<rfloor> < n" by (simp add: floor_less_iff)
    with rte_bounds [of q] show ?thesis by simp
  qed
qed

lemma rte_mono: "q \<le> q' \<Longrightarrow> roundTiesToEven q \<le> roundTiesToEven q'"
proof -
  assume h: "q \<le> q'"
  then have f: "\<lfloor>q\<rfloor> \<le> \<lfloor>q'\<rfloor>" by (rule floor_mono)
  show ?thesis
  proof (cases "\<lfloor>q\<rfloor> = \<lfloor>q'\<rfloor>")
    case True
    with h show ?thesis
      by (auto simp: roundTiesToEven_def Let_def)
  next
    case False
    with f have "\<lfloor>q\<rfloor> + 1 \<le> \<lfloor>q'\<rfloor>" by simp
    moreover have "\<lfloor>q'\<rfloor> \<le> roundTiesToEven q'" by (simp add: roundTiesToEven_def Let_def)
    ultimately show ?thesis using rte_bounds [of q] by simp
  qed
qed

lemma rte_near: "\<bar>q - of_int m\<bar> < 1 / 2 \<Longrightarrow> roundTiesToEven q = m"
proof -
  assume h: "\<bar>q - of_int m\<bar> < 1 / 2"
  show ?thesis
  proof (cases "of_int m \<le> q")
    case True
    with h have "\<lfloor>q\<rfloor> = m" by (intro floor_unique) auto
    with h True show ?thesis by (auto simp: roundTiesToEven_def Let_def)
  next
    case False
    with h have "\<lfloor>q\<rfloor> = m - 1" by (intro floor_unique) auto
    with h False show ?thesis by (auto simp: roundTiesToEven_def Let_def)
  qed
qed

lemma rte_minus: "roundTiesToEven (- q) = - roundTiesToEven q"
proof (cases "q \<in> \<int>")
  case True
  then obtain n where "q = of_int n" by (auto elim: Ints_cases)
  then have "- q = of_int (- n)" by simp
  with \<open>q = of_int n\<close> show ?thesis by (simp only: rte_of_int)
next
  case False
  then have ne: "q \<noteq> of_int \<lfloor>q\<rfloor>" by (metis Ints_of_int)
  then have fl: "\<lfloor>- q\<rfloor> = - \<lfloor>q\<rfloor> - 1"
    by (simp add: floor_minus ceiling_altdef)
  from ne have d: "0 < q - of_int \<lfloor>q\<rfloor>" "q - of_int \<lfloor>q\<rfloor> < 1"
    by (simp_all add: less_le) linarith
  show ?thesis
    unfolding roundTiesToEven_def Let_def fl using d
    by (auto simp: field_simps)
qed


lemma ulp_pos [simp]: "0 < ulp x"
  by (simp add: ulp_def)

lemma binade_minus [simp]: "binade (- x) = binade x"
  by (simp add: binade_def)

lemma ulp_minus [simp]: "ulp (- x) = ulp x"
  by (simp add: ulp_def)

lemma round_double_minus: "round_double (- x) = - round_double x"
  by (simp add: round_double_def rte_minus)

lemma binade_upper:
  assumes "x \<noteq> 0"
  shows "\<bar>x\<bar> < 2 powr (of_int (binade x) + 1)"
proof -
  have "log 2 \<bar>x\<bar> < of_int \<lfloor>log 2 \<bar>x\<bar>\<rfloor> + 1" by linarith
  also have "\<dots> \<le> of_int (binade x) + 1" by (simp add: binade_def)
  finally have "2 powr (log 2 \<bar>x\<bar>) < 2 powr (of_int (binade x) + 1)"
    by (simp add: powr_less_mono)
  with assms show ?thesis by simp
qed

lemma binade_lower:
  assumes "x \<noteq> 0" and "- 1022 < binade x"
  shows "2 powr (of_int (binade x)) \<le> \<bar>x\<bar>"
proof -
  from assms(2) have "binade x = \<lfloor>log 2 \<bar>x\<bar>\<rfloor>" by (simp add: binade_def max_def split: if_splits)
  then have "of_int (binade x) \<le> log 2 \<bar>x\<bar>" by simp
  then have "2 powr (of_int (binade x)) \<le> 2 powr (log 2 \<bar>x\<bar>)"
    by (simp add: powr_mono)
  with assms(1) show ?thesis by simp
qed

lemma binade_mono:
  assumes "0 < v" and "v \<le> w"
  shows "binade v \<le> binade w"
proof -
  from assms have "log 2 \<bar>v\<bar> \<le> log 2 \<bar>w\<bar>" by simp
  then have "\<lfloor>log 2 \<bar>v\<bar>\<rfloor> \<le> \<lfloor>log 2 \<bar>w\<bar>\<rfloor>" by (rule floor_mono)
  then show ?thesis unfolding binade_def by (intro max.mono) simp_all
qed

lemma ulp_nonneg [simp]: "0 \<le> ulp x"
  by (simp add: ulp_def)

lemma ulp_times: "ulp x * 2 ^ 52 = 2 powr (of_int (binade x))"
proof -
  have "(2::real) ^ 52 = 2 powr 52" by simp
  then have "ulp x * 2 ^ 52 = 2 powr (of_int (binade x) - 52 + 52)"
    unfolding ulp_def by (simp only: powr_add)
  then show ?thesis by simp
qed

lemma ulp_times': "ulp x * 2 ^ 53 = 2 powr (of_int (binade x) + 1)"
proof -
  have "(2::real) ^ 53 = 2 powr 53" by simp
  then have "ulp x * 2 ^ 53 = 2 powr (of_int (binade x) - 52 + 53)"
    unfolding ulp_def by (simp only: powr_add)
  moreover have "of_int (binade x) - 52 + 53 = (of_int (binade x) + 1 :: real)" by simp
  ultimately show ?thesis by (simp only:)
qed

lemma round_double_nonneg:
  assumes "0 < x"
  shows "0 \<le> round_double x"
proof -
  from assms have "(of_int 0 :: real) \<le> x / ulp x" by simp
  then have "0 \<le> roundTiesToEven (x / ulp x)" by (rule rte_ge)
  with assms show ?thesis by (simp add: round_double_def)
qed

lemma round_double_upper:
  assumes "0 < x"
  shows "round_double x \<le> 2 powr (of_int (binade x) + 1)"
proof -
  from assms binade_upper [of x] have "x < ulp x * 2 ^ 53" by (simp only: ulp_times') simp
  then have "x / ulp x < 2 ^ 53" by (simp add: pos_divide_less_eq mult.commute)
  then have "x / ulp x \<le> of_int (2 ^ 53)" by simp
  then have "roundTiesToEven (x / ulp x) \<le> 2 ^ 53" by (rule rte_le)
  then have "(of_int (roundTiesToEven (x / ulp x)) :: real) \<le> of_int (2 ^ 53)"
    by (simp only: of_int_le_iff)
  then have "ulp x * of_int (roundTiesToEven (x / ulp x)) \<le> ulp x * 2 ^ 53"
    by (simp add: mult_left_mono)
  with assms show ?thesis by (simp only: round_double_def ulp_times') simp
qed

lemma round_double_lower:
  assumes "0 < x" and "- 1022 < binade x"
  shows "2 powr (of_int (binade x)) \<le> round_double x"
proof -
  from assms binade_lower [of x] have "ulp x * 2 ^ 52 \<le> x" by (simp only: ulp_times) simp
  then have "2 ^ 52 \<le> x / ulp x" by (simp add: pos_le_divide_eq mult.commute)
  then have "of_int (2 ^ 52) \<le> x / ulp x" by simp
  then have "2 ^ 52 \<le> roundTiesToEven (x / ulp x)" by (rule rte_ge)
  then have "(of_int (2 ^ 52) :: real) \<le> of_int (roundTiesToEven (x / ulp x))"
    by (simp only: of_int_le_iff)
  then have "ulp x * 2 ^ 52 \<le> ulp x * of_int (roundTiesToEven (x / ulp x))"
    by (simp add: mult_left_mono)
  with assms show ?thesis by (simp only: round_double_def ulp_times) simp
qed

lemma round_double_mono_pos:
  assumes "0 < v" and "v \<le> w"
  shows "round_double v \<le> round_double w"
proof (cases "binade v = binade w")
  case True
  then have u: "ulp v = ulp w" by (simp add: ulp_def)
  from assms have "v / ulp w \<le> w / ulp w" by (simp add: divide_right_mono)
  then have "roundTiesToEven (v / ulp w) \<le> roundTiesToEven (w / ulp w)" by (rule rte_mono)
  then have "ulp w * of_int (roundTiesToEven (v / ulp w)) \<le>
             ulp w * of_int (roundTiesToEven (w / ulp w))" by simp
  with assms u show ?thesis by (simp add: round_double_def)
next
  case False
  with binade_mono [OF assms] have lt: "binade v < binade w" by simp
  have "- 1022 \<le> binade v" by (simp add: binade_def)
  with lt have w: "- 1022 < binade w" by simp
  from assms have wp: "0 < w" by simp
  have "round_double v \<le> 2 powr (of_int (binade v) + 1)"
    by (rule round_double_upper [OF assms(1)])
  also from lt have "\<dots> \<le> 2 powr (of_int (binade w))"
    by (intro powr_mono) simp_all
  also have "\<dots> \<le> round_double w"
    by (rule round_double_lower [OF wp w])
  finally show ?thesis .
qed

lemma round_double_zero [simp]: "round_double 0 = 0"
  by (simp add: round_double_def)

lemma round_double_mono:
  assumes "v \<le> w"
  shows "round_double v \<le> round_double w"
proof -
  consider "0 < v" | "v \<le> 0" "0 \<le> w" | "w < 0" by linarith
  then show ?thesis
  proof cases
    case 1
    from 1 assms show ?thesis by (rule round_double_mono_pos)
  next
    case 2
    have "round_double v \<le> 0"
    proof (cases "v = 0")
      case True then show ?thesis by simp
    next
      case False
      with 2 have "0 < - v" by simp
      from round_double_nonneg [OF this] show ?thesis by (simp add: round_double_minus)
    qed
    moreover have "0 \<le> round_double w"
    proof (cases "w = 0")
      case True then show ?thesis by simp
    next
      case False
      with 2 have "0 < w" by simp
      then show ?thesis by (rule round_double_nonneg)
    qed
    ultimately show ?thesis by simp
  next
    case 3
    with assms have "0 < - w" "- w \<le> - v" by simp_all
    from round_double_mono_pos [OF this] show ?thesis by (simp add: round_double_minus)
  qed
qed


lemma binade_eq:
  assumes "2 powr (of_int e) \<le> \<bar>x\<bar>" and "\<bar>x\<bar> < 2 powr (of_int e + 1)" and "- 1022 \<le> e"
  shows "binade x = e"
proof -
  have pos: "0 < \<bar>x\<bar>"
    using assms(1) by (smt (verit) powr_gt_zero)
  from assms(1) pos have "of_int e \<le> log 2 \<bar>x\<bar>"
    by (simp add: le_log_iff)
  moreover from assms(2) pos have "log 2 \<bar>x\<bar> < of_int e + 1"
    by (simp add: log_less_iff)
  ultimately have "\<lfloor>log 2 \<bar>x\<bar>\<rfloor> = e"
    by (intro floor_unique) simp_all
  with assms(3) show ?thesis by (simp add: binade_def)
qed

lemma fl_int [simp]:
  assumes "x \<in> \<int>" and "\<bar>x\<bar> < 2 ^ 53"
  shows "fl x = Fin x"
proof (cases "x = 0")
  case True
  then show ?thesis by (simp add: fl_def)
next
  case False
  from assms(1) obtain n where n: "x = of_int n" by (auto elim: Ints_cases)
  with False have "1 \<le> \<bar>n\<bar>" by simp
  then have one: "1 \<le> \<bar>x\<bar>" unfolding n by (simp only: of_int_abs [symmetric] of_int_1_le_iff)
  define e where "e = \<lfloor>log 2 \<bar>x\<bar>\<rfloor>"
  from one have "0 \<le> log 2 \<bar>x\<bar>" by simp
  then have e0: "0 \<le> e" by (simp add: e_def)
  from assms(2) one have "log 2 \<bar>x\<bar> < 53"
    by (simp add: log_less_iff)
  then have e52: "e \<le> 52" unfolding e_def by (simp add: floor_le_iff)
  from e0 have b: "binade x = e" by (simp add: binade_def e_def)
  define k where "k = nat (52 - e)"
  from e52 have ke: "of_int e - 52 = - real k" by (simp add: k_def)
  have u: "ulp x = 1 / 2 ^ k"
    unfolding ulp_def b ke by (simp add: powr_minus powr_realpow inverse_eq_divide)
  have "x / ulp x = x * 2 ^ k" by (simp add: u)
  also have "\<dots> = of_int (n * 2 ^ k)" by (simp add: n)
  finally have "roundTiesToEven (x / ulp x) = n * 2 ^ k" by (simp only: rte_of_int)
  then have "round_double x = (1 / 2 ^ k) * of_int (n * 2 ^ k)"
    using False by (simp add: round_double_def u)
  then have "round_double x = x" by (simp add: n)
  moreover have "(2::real) ^ 53 \<le> 2 ^ 1024" by (intro power_increasing) simp_all
  with assms(2) have "\<not> 2 ^ 1024 \<le> x" "\<not> x \<le> - (2 ^ 1024)"
    by linarith+
  ultimately show ?thesis by (simp only: fl_def Let_def if_False)
qed

lemma round_double_near:
  assumes "2 powr (of_int e) \<le> \<bar>x\<bar>" and "\<bar>x\<bar> < 2 powr (of_int e + 1)" and "- 1022 \<le> e"
    and "\<bar>x / 2 powr (of_int e - 52) - of_int m\<bar> < 1 / 2"
  shows "round_double x = 2 powr (of_int e - 52) * of_int m"
proof -
  have b: "binade x = e" by (rule binade_eq [OF assms(1-3)])
  have "x \<noteq> 0" using assms(1) by (smt (verit) powr_gt_zero)
  moreover from assms(4) have "roundTiesToEven (x / 2 powr (of_int e - 52)) = m"
    by (rule rte_near)
  ultimately show ?thesis by (simp add: round_double_def ulp_def b)
qed

lemma lost_bit: "fl (1 / 2 ^ 60 + 24) = Fin 24"
proof -
  have "round_double (1 / 2 ^ 60 + 24) = 2 powr (of_int 4 - 52) * of_int (24 * 2 ^ 48)"
    by (rule round_double_near) (simp_all add: powr_minus)
  also have "\<dots> = 24" by (simp add: powr_minus)
  finally show ?thesis by (simp add: fl_def)
qed


lemma fl_not_NaN [simp]: "fl x \<noteq> NaN"
  by (simp add: fl_def Let_def)


lemma clamp_in_range:
  assumes "v \<noteq> NaN" and "0 \<le> hi"
  shows "\<exists>r. js_max (Fin 0) (js_min v (Fin hi)) = Fin r \<and> 0 \<le> r \<and> r \<le> hi"
  using assms by (cases v) auto

lemma fl_below:
  assumes "fl c = Fin c" and "v \<le> c"
  shows "\<not> js_lt (Fin c) (fl v)"
proof -
  from assms(1) have c: "round_double c = c" "c < 2 ^ 1024"
    by (auto simp: fl_def Let_def split: if_splits)
  from round_double_mono [OF assms(2)] c have "round_double v \<le> c" "round_double v < 2 ^ 1024"
    by simp_all
  then show ?thesis by (simp add: fl_def Let_def)
qed

lemma fl_above:
  assumes "fl c = Fin c" and "c \<le> v"
  shows "\<not> js_lt (fl v) (Fin c)"
proof -
  from assms(1) have c: "round_double c = c" "- (2 ^ 1024) < c"
    by (auto simp: fl_def Let_def split: if_splits)
  from round_double_mono [OF assms(2)] c have "c \<le> round_double v" "- (2 ^ 1024) < round_double v"
    by simp_all
  then show ?thesis by (simp add: fl_def Let_def)
qed

lemma tiny_is_double: "fl (1 / 2 ^ 60) = Fin (1 / 2 ^ 60)"
proof -
  have "round_double (1 / 2 ^ 60) = 2 powr (of_int (- 60) - 52) * of_int (2 ^ 52)"
    by (rule round_double_near) (simp_all add: powr_minus)
  also have "\<dots> = 1 / 2 ^ 60" by (simp add: powr_minus)
  finally show ?thesis by (simp add: fl_def)
qed

section \<open>Facts about the players map and the broadcasts\<close>

lemma players_broadcastPlayers [simp]: "players (broadcastPlayers t now s) = players s"
  by (simp add: broadcastPlayers_def broadcastPlayersImmediate_def Let_def)

lemma map_of_players_set_same [simp]: "map_of (players_set ws p es) ws = Some p"
  by (induction es) auto

lemma map_of_players_set_other [simp]:
  "k \<noteq> ws \<Longrightarrow> map_of (players_set ws p es) k = map_of es k"
  by (induction es) auto

section \<open>Movement stays inside the arena\<close>










section \<open>A move on a channel that never joined\<close>

text \<open>
  Claim C9. A move message on a channel with no record in the players map leaves the
  whole server state as it was: the map and every record in it, the timer, the throttle
  variables, and the log of sent messages (nothing is broadcast).
\<close>

theorem move_unregistered_dropped:
  assumes "map_of (players s) ws = None"
  shows "message ws (Move dx dy isInf) rnd now s = s"
  using assms by (simp add: handle_move_def)

theorem move_unregistered_dropped_witness:
  "map_of (players expiring_state) 3 = None \<and>
   message 3 (Move (Number (Fin 5)) Absent (Some True)) (\<lambda>_. 0) 1000 expiring_state = expiring_state"
proof -
  have h: "map_of (players expiring_state) 3 = None"
    by (simp add: expiring_state_def)
  from move_unregistered_dropped [OF h] h show ?thesis by simp
qed

section \<open>The collision predicate\<close>

lemma open_intervals_meet:
  fixes a b w :: real
  shows "(\<exists>u. a < u \<and> u < a + w \<and> b < u \<and> u < b + w) \<longleftrightarrow>
         (a < b + w \<and> a + w > b \<and> 0 < w)"
proof
  assume "\<exists>u. a < u \<and> u < a + w \<and> b < u \<and> u < b + w"
  then show "a < b + w \<and> a + w > b \<and> 0 < w" by auto
next
  assume h: "a < b + w \<and> a + w > b \<and> 0 < w"
  let ?u = "(max a b + min (a + w) (b + w)) / 2"
  have "a < ?u \<and> ?u < a + w \<and> b < ?u \<and> ?u < b + w"
    using h by (auto simp: max_def min_def field_simps)
  then show "\<exists>u. a < u \<and> u < a + w \<and> b < u \<and> u < b + w" by blast
qed

lemma hitbox_meet:
  assumes "px a = Fin xa" and "py a = Fin ya" and "px b = Fin xb" and "py b = Fin yb"
  shows "hitbox a \<inter> hitbox b \<noteq> {} \<longleftrightarrow>
     (xa < xb + 24 \<and> xa + 24 > xb \<and> ya < yb + 40 \<and> ya + 40 > yb)"
proof -
  have "hitbox a \<inter> hitbox b \<noteq> {} \<longleftrightarrow>
        (\<exists>u. xa < u \<and> u < xa + 24 \<and> xb < u \<and> u < xb + 24) \<and>
        (\<exists>v. ya < v \<and> v < ya + 40 \<and> yb < v \<and> v < yb + 40)"
    by (auto simp: hitbox_def assms)
  then show ?thesis
    using open_intervals_meet [of xa 24 xb] open_intervals_meet [of ya 40 yb]
    by simp
qed

lemma both_finite:
  assumes "js_lt a (js_add b (Fin w))" and "js_lt b (js_add a (Fin w))"
  shows "\<exists>x y. a = Fin x \<and> b = Fin y"
  using assms by (cases a; cases b) simp_all

lemma below_sum:
  assumes "fl c = Fin c" and "js_lt (Fin c) (js_add (Fin v) (Fin w))"
  shows "c < v + w"
proof (rule ccontr)
  assume "\<not> c < v + w"
  then have "v + w \<le> c" by simp
  from fl_below [OF assms(1) this] assms(2) show False by simp
qed

lemma isColliding_sound:
  assumes "is_double (px a)" and "is_double (py a)" and "is_double (px b)" and "is_double (py b)"
    and "isColliding a b"
  shows "hitbox a \<inter> hitbox b \<noteq> {} \<and> isInfected a \<noteq> isInfected b"
proof -
  from assms(5) have c:
    "js_lt (px a) (js_add (px b) (Fin 24))" "js_lt (px b) (js_add (px a) (Fin 24))"
    "js_lt (py a) (js_add (py b) (Fin 40))" "js_lt (py b) (js_add (py a) (Fin 40))"
    "isInfected a \<noteq> isInfected b"
    by (simp_all add: isColliding_def)
  from both_finite [OF c(1,2)] obtain xa xb where x: "px a = Fin xa" "px b = Fin xb" by blast
  from both_finite [OF c(3,4)] obtain ya yb where y: "py a = Fin ya" "py b = Fin yb" by blast
  from assms(1-4) x y have d: "fl xa = Fin xa" "fl ya = Fin ya" "fl xb = Fin xb" "fl yb = Fin yb"
    by (simp_all add: is_double_def)
  from c(1) x have "xa < xb + 24" by (intro below_sum [OF d(1)]) simp
  moreover from c(2) x have "xb < xa + 24" by (intro below_sum [OF d(3)]) simp
  moreover from c(3) y have "ya < yb + 40" by (intro below_sum [OF d(2)]) simp
  moreover from c(4) y have "yb < ya + 40" by (intro below_sum [OF d(4)]) simp
  ultimately have "hitbox a \<inter> hitbox b \<noteq> {}"
    by (simp add: hitbox_meet [OF x(1) y(1) x(2) y(2)])
  with c(5) show ?thesis by simp
qed

text \<open>
  Claim C4, as the code has it. The code compares each coordinate with a sum that is
  rounded to a double. For players whose coordinates are doubles, \<open>isColliding a b\<close>
  returns true only if the 24 by 40 rectangles anchored at the two stored positions
  intersect strictly and the two infection flags differ. Where the four sums
  \<open>b.x + 24\<close>, \<open>a.x + 24\<close>, \<open>b.y + 40\<close> and \<open>a.y + 40\<close> are exact in double
  arithmetic, \<open>isColliding a b\<close> is true exactly in that case. Two players with the same
  flag never collide, wherever they stand.
\<close>

theorem isColliding_hitboxes:
  "(is_double (px a) \<and> is_double (py a) \<and> is_double (px b) \<and> is_double (py b) \<and>
    isColliding a b \<longrightarrow>
      hitbox a \<inter> hitbox b \<noteq> {} \<and> isInfected a \<noteq> isInfected b) \<and>
   (px a = Fin xa \<and> py a = Fin ya \<and> px b = Fin xb \<and> py b = Fin yb \<and>
    fl (xb + 24) = Fin (xb + 24) \<and> fl (xa + 24) = Fin (xa + 24) \<and>
    fl (yb + 40) = Fin (yb + 40) \<and> fl (ya + 40) = Fin (ya + 40) \<longrightarrow>
      (isColliding a b \<longleftrightarrow> hitbox a \<inter> hitbox b \<noteq> {} \<and> isInfected a \<noteq> isInfected b)) \<and>
   (isInfected a = isInfected b \<longrightarrow> \<not> isColliding a b)"
proof (intro conjI impI)
  assume "is_double (px a) \<and> is_double (py a) \<and> is_double (px b) \<and> is_double (py b) \<and>
    isColliding a b"
  then show "hitbox a \<inter> hitbox b \<noteq> {}" and "isInfected a \<noteq> isInfected b"
    using isColliding_sound [of a b] by simp_all
next
  assume h: "px a = Fin xa \<and> py a = Fin ya \<and> px b = Fin xb \<and> py b = Fin yb \<and>
    fl (xb + 24) = Fin (xb + 24) \<and> fl (xa + 24) = Fin (xa + 24) \<and>
    fl (yb + 40) = Fin (yb + 40) \<and> fl (ya + 40) = Fin (ya + 40)"
  then have "hitbox a \<inter> hitbox b \<noteq> {} \<longleftrightarrow>
     (xa < xb + 24 \<and> xa + 24 > xb \<and> ya < yb + 40 \<and> ya + 40 > yb)"
    by (intro hitbox_meet) simp_all
  with h show "isColliding a b \<longleftrightarrow> hitbox a \<inter> hitbox b \<noteq> {} \<and> isInfected a \<noteq> isInfected b"
    by (simp add: isColliding_def)
next
  assume "isInfected a = isInfected b"
  then show "\<not> isColliding a b" by (simp add: isColliding_def)
qed

theorem isColliding_hitboxes_witness:
  "is_double (px demo_player) \<and> is_double (py demo_player) \<and>
   is_double (px other_player) \<and> is_double (py other_player) \<and>
   isColliding demo_player other_player \<and>
   hitbox demo_player \<inter> hitbox other_player \<noteq> {} \<and>
   fl (123 + 24) = Fin (123 + 24) \<and> fl (100 + 24) = Fin (100 + 24) \<and>
   fl (89 + 40) = Fin (89 + 40) \<and> fl (50 + 40) = Fin (50 + 40) \<and>
   isInfected demo_player = isInfected (demo_player\<lparr>pid := ''c''\<rparr>) \<and>
   \<not> isColliding demo_player (demo_player\<lparr>pid := ''c''\<rparr>)"
proof -
  have d: "is_double (px demo_player) \<and> is_double (py demo_player) \<and>
           is_double (px other_player) \<and> is_double (py other_player)"
    by (simp add: is_double_def demo_player_def other_player_def)
  have c: "isColliding demo_player other_player"
    by (simp add: isColliding_def demo_player_def other_player_def)
  have e: "fl (123 + 24) = Fin (123 + 24)" "fl (100 + 24) = Fin (100 + 24)"
    "fl (89 + 40) = Fin (89 + 40)" "fl (50 + 40) = Fin (50 + 40)"
    by simp_all
  have h: "isInfected demo_player = isInfected (demo_player\<lparr>pid := ''c''\<rparr>)"
    by simp
  from isColliding_hitboxes [of demo_player other_player] d c
  have m: "hitbox demo_player \<inter> hitbox other_player \<noteq> {}"
    by blast
  from isColliding_hitboxes [of demo_player "demo_player\<lparr>pid := ''c''\<rparr>"] h
  have n: "\<not> isColliding demo_player (demo_player\<lparr>pid := ''c''\<rparr>)"
    by blast
  from d c m e h n show ?thesis by blast
qed

text \<open>The claim as stated has \<open>isColliding\<close> true whenever the rectangles intersect
  strictly and the flags differ. With \<open>a.x = 24\<close> and \<open>b.x = 2^-60\<close> the rectangles
  share the strip between 24 and \<open>24 + 2^-60\<close>, but the sum \<open>b.x + 24\<close> rounds to 24
  and \<open>a.x < b.x + 24\<close> is false.\<close>

theorem lost_overlap_counterexample:
  "is_double (px brink_a) \<and> is_double (py brink_a) \<and>
   is_double (px brink_b) \<and> is_double (py brink_b) \<and>
   hitbox brink_a \<inter> hitbox brink_b \<noteq> {} \<and>
   isInfected brink_a \<noteq> isInfected brink_b \<and>
   \<not> isColliding brink_a brink_b"
proof -
  have c: "px brink_a = Fin 24" "py brink_a = Fin 0" "px brink_b = Fin (1 / 2 ^ 60)"
    "py brink_b = Fin 0"
    by (simp_all add: brink_a_def brink_b_def)
  have d: "is_double (px brink_a)" "is_double (py brink_a)" "is_double (px brink_b)"
    "is_double (py brink_b)"
    unfolding c using tiny_is_double by (simp_all add: is_double_def)
  have m: "hitbox brink_a \<inter> hitbox brink_b \<noteq> {}"
    by (simp add: hitbox_meet [OF c])
  have i: "isInfected brink_a \<noteq> isInfected brink_b"
    by (simp add: brink_a_def brink_b_def)
  have "\<not> js_lt (px brink_a) (js_add (px brink_b) (Fin 24))"
    unfolding c using lost_bit by simp
  then have n: "\<not> isColliding brink_a brink_b"
    by (simp add: isColliding_def)
  from d m i n show ?thesis by blast
qed

section \<open>The tick of the round timer\<close>

text \<open>
  Claim C6, as the code has it. A tick that finds the timer not paused decrements the
  counter and broadcasts the timer. If the counter is then at most 0, the interval is
  cleared, the counter is 20 again, \<open>running\<close> and \<open>paused\<close> are false, and two more
  timer broadcasts follow the one after the decrement: one sent by \<open>stopTimer\<close> and one
  sent by the callback itself, both carrying \<open>{20, false, false}\<close>. Otherwise nothing
  but the counter and the log changes.
\<close>

theorem tick_not_paused:
  assumes "\<not> gamePaused s"
  shows "tick s =
     (if gameTimer s - 1 \<le> 0
      then s\<lparr>gameTimer := 20, gameRunning := False, gamePaused := False,
             timerInterval := False,
             outbox := outbox s @
               [(map fst (players s), TimerUpdate (gameTimer s - 1) (gameRunning s) False),
                (map fst (players s), TimerUpdate 20 False False),
                (map fst (players s), TimerUpdate 20 False False)]\<rparr>
      else s\<lparr>gameTimer := gameTimer s - 1,
             outbox := outbox s @
               [(map fst (players s), TimerUpdate (gameTimer s - 1) (gameRunning s) False)]\<rparr>)"
  using assms by (simp add: tick_def stopTimer_def broadcastTimer_def Let_def)

theorem tick_not_paused_witness:
  "\<not> gamePaused expiring_state \<and>
   tick expiring_state =
     expiring_state\<lparr>gameTimer := 20, gameRunning := False, gamePaused := False,
       timerInterval := False,
       outbox := [([0], TimerUpdate 0 True False), ([0], TimerUpdate 20 False False),
                  ([0], TimerUpdate 20 False False)]\<rparr>"
proof -
  have h: "\<not> gamePaused expiring_state"
    by (simp add: expiring_state_def initial_state_def)
  from tick_not_paused [OF h] h show ?thesis
    by (simp add: expiring_state_def initial_state_def)
qed

text \<open>The claim as stated asks for exactly one broadcast after the one that follows the
  decrement, two in all; the expiring tick sends three.\<close>

theorem tick_expiry_counterexample:
  "length (outbox (tick expiring_state)) \<noteq> length (outbox expiring_state) + 2 \<and>
   length (outbox (tick expiring_state)) = length (outbox expiring_state) + 3"
  by (simp add: tick_def stopTimer_def broadcastTimer_def Let_def expiring_state_def
      initial_state_def)

section \<open>The collision pass of the move handler\<close>

lemma isColliding_collidingWith [simp]:
  "isColliding (p\<lparr>collidingWith := c\<rparr>) q = isColliding p q"
  by (simp add: isColliding_def)

lemma map_fst_players_modify [simp]: "map fst (players_modify k f es) = map fst es"
  by (induction es) (auto simp: players_modify_def)

lemma map_marked_modify:
  "map (marked i K) (players_modify k (\<lambda>q. q\<lparr>collidingWith := Some i\<rparr>) es) = map (marked i (insert k K)) es"
  by (induction es) (auto simp: players_modify_def marked_def)

lemma fold_collideWith:
  "fold (collideWith ws) es (p, s) =
     (let C = filter (\<lambda>e. fst e \<noteq> ws \<and> isColliding p (snd e)) es in
      (p\<lparr>collidingWith := (if C = [] then collidingWith p else Some (pid (snd (last C))))\<rparr>,
       s\<lparr>players := map (marked (pid p) (fst ` set C)) (players s),
         gamePaused := gamePaused s \<or> C \<noteq> [],
         outbox := outbox s @
           replicate (length C)
             (map fst (players s), TimerUpdate (gameTimer s) (gameRunning s) True)\<rparr>))"
proof (induction es arbitrary: p s)
  case Nil
  have "map (marked (pid p) {}) (players s) = players s"
    by (induction "players s") (auto simp: marked_def map_idI)
  then show ?case by (simp add: Let_def)
next
  case (Cons e es)
  obtain k q where e: "e = (k, q)" by (cases e)
  show ?case
  proof (cases "k \<noteq> ws \<and> isColliding p q")
    case False
    then show ?thesis using Cons [of p s] e by (auto simp: collideWith_def Let_def)
  next
    case True
    let ?p = "p\<lparr>collidingWith := Some (pid q)\<rparr>"
    let ?s = "pauseTimer (s\<lparr>players := players_modify k (\<lambda>q. q\<lparr>collidingWith := Some (pid p)\<rparr>) (players s)\<rparr>)"
    have st: "collideWith ws e (p, s) = (?p, ?s)"
      using True e by (simp add: collideWith_def)
    show ?thesis
      unfolding fold_simps st Cons [of ?p ?s]
      using True e
      by (simp add: Let_def pauseTimer_def broadcastTimer_def map_marked_modify
          replicate_append_same)
  qed
qed




lemma collidingWith_apply_movement [simp]: "collidingWith (apply_movement dx dy isInf p) = None"
  by (simp add: apply_movement_def plus_field_def Let_def)




section \<open>The gender handler\<close>

text \<open>
  Claim C8. While \<open>gameRunning\<close> is true a \<open>player:gender\<close> message changes nothing: no
  record, no broadcast, no other variable. Otherwise every record of the map whose id is
  the given \<open>playerId\<close> gets the given gender (all of them, when several channels joined
  with the same id), no other record changes, the whole roster is broadcast at once to
  every channel, and \<open>lastBroadcastTime\<close> is the time of the message.
\<close>

theorem gender_handler:
  "(gameRunning s \<longrightarrow> message ws (PlayerGender playerId g) rnd now s = s) \<and>
   (\<not> gameRunning s \<longrightarrow>
      message ws (PlayerGender playerId g) rnd now s =
        s\<lparr>players :=
            map (\<lambda>e. (fst e, if pid (snd e) = playerId then (snd e)\<lparr>gender := g\<rparr> else snd e))
              (players s),
          outbox := outbox s @
            [(map fst (players s),
              PlayersMsg ''players:update''
                (map (\<lambda>e. if pid (snd e) = playerId then (snd e)\<lparr>gender := g\<rparr> else snd e)
                   (players s)))],
          lastBroadcastTime := now\<rparr>)"
  by (auto simp: handle_gender_def broadcastPlayersImmediate_def o_def
      intro!: arg_cong2 [where f = "\<lambda>a b. s\<lparr>players := a, outbox := outbox s @ [b], lastBroadcastTime := now\<rparr>"])

theorem gender_handler_witness:
  "gameRunning expiring_state \<and>
   message 0 (PlayerGender ''a'' (Some ''f'')) (\<lambda>_. 0) 1000 expiring_state = expiring_state \<and>
   \<not> gameRunning twin_state \<and>
   players (message 0 (PlayerGender ''a'' (Some ''f'')) (\<lambda>_. 0) 1000 twin_state) =
     [(0, demo_player\<lparr>gender := Some ''f''\<rparr>),
      (1, demo_player\<lparr>px := Fin 300, gender := Some ''f''\<rparr>),
      (2, other_player)]"
proof -
  have r: "gameRunning expiring_state"
    by (simp add: expiring_state_def)
  have n: "\<not> gameRunning twin_state"
    by (simp add: twin_state_def initial_state_def)
  have ids: "pid demo_player = ''a''" "pid other_player = ''b''"
    by (simp_all add: demo_player_def other_player_def)
  from gender_handler [of expiring_state 0 "''a''" "Some ''f''" "\<lambda>_. 0" 1000] r
  have a: "message 0 (PlayerGender ''a'' (Some ''f'')) (\<lambda>_. 0) 1000 expiring_state = expiring_state"
    by blast
  from gender_handler [of twin_state 0 "''a''" "Some ''f''" "\<lambda>_. 0" 1000] n
  have "message 0 (PlayerGender ''a'' (Some ''f'')) (\<lambda>_. 0) 1000 twin_state =
        twin_state\<lparr>players :=
            map (\<lambda>e. (fst e, if pid (snd e) = ''a'' then (snd e)\<lparr>gender := Some ''f''\<rparr> else snd e))
              (players twin_state),
          outbox := outbox twin_state @
            [(map fst (players twin_state),
              PlayersMsg ''players:update''
                (map (\<lambda>e. if pid (snd e) = ''a'' then (snd e)\<lparr>gender := Some ''f''\<rparr> else snd e)
                   (players twin_state)))],
          lastBroadcastTime := 1000\<rparr>"
    by blast
  then have b: "players (message 0 (PlayerGender ''a'' (Some ''f'')) (\<lambda>_. 0) 1000 twin_state) =
     [(0, demo_player\<lparr>gender := Some ''f''\<rparr>),
      (1, demo_player\<lparr>px := Fin 300, gender := Some ''f''\<rparr>),
      (2, other_player)]"
    by (simp add: twin_state_def ids)
  from r a n b show ?thesis by blast
qed

section \<open>The placement loop\<close>

lemma all_from_zero:
  "(\<forall>j. a + j < (n::nat) \<longrightarrow> P j) \<longleftrightarrow> (a < n \<longrightarrow> P 0) \<and> (\<forall>j. Suc a + j < n \<longrightarrow> P (Suc j))"
proof
  assume h: "\<forall>j. a + j < n \<longrightarrow> P j"
  show "(a < n \<longrightarrow> P 0) \<and> (\<forall>j. Suc a + j < n \<longrightarrow> P (Suc j))"
  proof (intro conjI allI impI)
    assume "a < n" with h [rule_format, of 0] show "P 0" by simp
  next
    fix j assume "Suc a + j < n" with h [rule_format, of "Suc j"] show "P (Suc j)" by simp
  qed
next
  assume h: "(a < n \<longrightarrow> P 0) \<and> (\<forall>j. Suc a + j < n \<longrightarrow> P (Suc j))"
  show "\<forall>j. a + j < n \<longrightarrow> P j"
  proof (intro allI impI)
    fix j assume j: "a + j < n"
    show "P j"
    proof (cases j)
      case 0 with h j show ?thesis by simp
    next
      case (Suc i) with h j show ?thesis by simp
    qed
  qed
qed

lemma spawn_search_None_iff:
  "fst (spawn_search infected rnd placedPlayers player k attempts) = None \<longleftrightarrow>
     (\<forall>j. attempts + j < MAX_SPAWN_ATTEMPTS \<longrightarrow>
        attempt_overlaps infected rnd placedPlayers player (k + j * draws infected))"
proof (induction infected rnd placedPlayers player k attempts rule: spawn_search.induct)
  case (1 infected rnd placedPlayers player k attempts)
  let ?P = "\<lambda>j. attempt_overlaps infected rnd placedPlayers player (k + j * draws infected)"
  show ?case
  proof (cases "attempts < MAX_SPAWN_ATTEMPTS")
    case False
    then show ?thesis
      by (subst spawn_search.simps) simp
  next
    case True
    obtain x y where c: "candidate infected rnd k = (x, y)"
      by (cases "candidate infected rnd k")
    show ?thesis
    proof (cases "attempt_overlaps infected rnd placedPlayers player k")
      case False
      with True c have "fst (spawn_search infected rnd placedPlayers player k attempts) \<noteq> None"
        by (subst spawn_search.simps) (simp add: attempt_overlaps_def)
      moreover from False True have "\<not> (\<forall>j. attempts + j < MAX_SPAWN_ATTEMPTS \<longrightarrow> ?P j)"
        by (auto intro!: exI [of _ 0])
      ultimately show ?thesis by blast
    next
      case ov: True
      with True c have
        "spawn_search infected rnd placedPlayers player k attempts =
         spawn_search infected rnd placedPlayers player (k + draws infected) (attempts + 1)"
        by (subst spawn_search.simps) (simp add: attempt_overlaps_def)
      moreover from ov True c
      have "fst (spawn_search infected rnd placedPlayers player (k + draws infected) (attempts + 1)) = None \<longleftrightarrow>
            (\<forall>j. attempts + 1 + j < MAX_SPAWN_ATTEMPTS \<longrightarrow>
               attempt_overlaps infected rnd placedPlayers player (k + draws infected + j * draws infected))"
        by (intro "1.IH" [OF True c [symmetric] refl refl]) (simp add: attempt_overlaps_def)
      ultimately show ?thesis
        using ov True by (subst all_from_zero) (simp add: add.assoc add.commute)
    qed
  qed
qed


lemma spawn_search_Some_free:
  "fst (spawn_search infected rnd placedPlayers player k attempts) = Some (x, y) \<Longrightarrow>
     \<not> list_ex (\<lambda>p. isOverlapping (player\<lparr>px := x, py := y\<rparr>) p) placedPlayers"
proof (induction infected rnd placedPlayers player k attempts rule: spawn_search.induct)
  case (1 infected rnd placedPlayers player k attempts)
  show ?case
  proof (cases "attempts < MAX_SPAWN_ATTEMPTS")
    case False
    with "1.prems" show ?thesis
      by (subst (asm) spawn_search.simps) simp
  next
    case True
    obtain x' y' where c: "candidate infected rnd k = (x', y')"
      by (cases "candidate infected rnd k")
    show ?thesis
    proof (cases "list_ex (\<lambda>p. isOverlapping (player\<lparr>px := x', py := y'\<rparr>) p) placedPlayers")
      case False
      with True c "1.prems" have "x' = x \<and> y' = y"
        by (subst (asm) spawn_search.simps) simp
      with False show ?thesis by simp
    next
      case ov: True
      with True c "1.prems" have
        "fst (spawn_search infected rnd placedPlayers player (k + draws infected) (attempts + 1)) = Some (x, y)"
        by (subst (asm) spawn_search.simps) simp
      with "1.IH" [OF True c [symmetric] refl refl] ov show ?thesis by simp
    qed
  qed
qed

lemma reset_player_None:
  assumes "fst (spawn_search infected rnd placedPlayers player k 0) = None"
  shows "reset_player infected rnd player (k, placedPlayers) =
           (player, (snd (spawn_search infected rnd placedPlayers player k 0), placedPlayers))"
  using assms by (cases "spawn_search infected rnd placedPlayers player k 0") (simp add: reset_player_def)

lemma reset_player_Some:
  assumes "fst (spawn_search infected rnd placedPlayers player k 0) = Some (x, y)"
  shows "reset_player infected rnd player (k, placedPlayers) =
           (player\<lparr>px := x, py := y, collidingWith := None\<rparr>,
            (snd (spawn_search infected rnd placedPlayers player k 0),
             placedPlayers @ [player\<lparr>px := x, py := y, collidingWith := None\<rparr>]))"
  using assms
  by (cases "spawn_search infected rnd placedPlayers player k 0") (simp add: reset_player_def Let_def)

lemma fst_reset_player:
  "fst (reset_player infected rnd player (k, placedPlayers)) =
     (case fst (spawn_search infected rnd placedPlayers player k 0) of
        Some (x, y) \<Rightarrow> player\<lparr>px := x, py := y, collidingWith := None\<rparr>
      | None \<Rightarrow> player)"
proof (cases "fst (spawn_search infected rnd placedPlayers player k 0)")
  case None
  then show ?thesis by (simp add: reset_player_None)
next
  case (Some c)
  obtain x y where "c = (x, y)" by (cases c)
  with Some show ?thesis by (simp add: reset_player_Some)
qed

lemma isInfected_reset_player [simp]:
  "isInfected (fst (reset_player infected rnd player acc)) = isInfected player"
  by (cases acc) (simp add: fst_reset_player split: option.split)

lemma reset_pass_rel:
  "reset_pass infected rnd es acc = (es', acc') \<Longrightarrow>
   list_all2 (\<lambda>e e'. fst e' = fst e \<and>
                (if isInfected (snd e) = infected
                 then \<exists>a. snd e' = fst (reset_player infected rnd (snd e) a)
                 else snd e' = snd e)) es es'"
proof (induction es arbitrary: acc es' acc')
  case Nil
  then show ?case by simp
next
  case (Cons e es)
  obtain ws player where e: "e = (ws, player)" by (cases e)
  show ?case
  proof (cases "isInfected player = infected")
    case True
    obtain player' a where rp: "reset_player infected rnd player acc = (player', a)"
      by (cases "reset_player infected rnd player acc")
    obtain es1 a1 where r: "reset_pass infected rnd es a = (es1, a1)"
      by (cases "reset_pass infected rnd es a")
    from Cons.prems e True rp r have es': "es' = (ws, player') # es1" by simp
    from rp have "\<exists>a. player' = fst (reset_player infected rnd player a)"
      by (intro exI [of _ acc]) simp
    with Cons.IH [OF r] es' e True show ?thesis by simp
  next
    case False
    obtain es1 a1 where r: "reset_pass infected rnd es acc = (es1, a1)"
      by (cases "reset_pass infected rnd es acc")
    from Cons.prems e False r have es': "es' = (ws, player) # es1" by simp
    with Cons.IH [OF r] e False show ?thesis by simp
  qed
qed

lemma resetAllPositions_rel:
  "list_all2 (\<lambda>e e'. fst e' = fst e \<and>
                (\<exists>a. snd e' = fst (reset_player (isInfected (snd e)) rnd (snd e) a)))
     (players s) (players (resetAllPositions rnd s))"
proof -
  obtain es1 acc1 where p1: "reset_pass True rnd (players s) (0, []) = (es1, acc1)"
    by (cases "reset_pass True rnd (players s) (0, [])")
  obtain es2 acc2 where p2: "reset_pass False rnd es1 acc1 = (es2, acc2)"
    by (cases "reset_pass False rnd es1 acc1")
  have pl: "players (resetAllPositions rnd s) = es2"
    by (simp add: resetAllPositions_def p1 p2)
  let ?R1 = "\<lambda>e e'. fst e' = fst e \<and>
                (if isInfected (snd e) = True
                 then \<exists>a. snd e' = fst (reset_player True rnd (snd e) a)
                 else snd e' = snd e)"
  let ?R2 = "\<lambda>e e'. fst e' = fst e \<and>
                (if isInfected (snd e) = False
                 then \<exists>a. snd e' = fst (reset_player False rnd (snd e) a)
                 else snd e' = snd e)"
  have "list_all2 (?R1 OO ?R2) (players s) es2"
    using reset_pass_rel [OF p1] reset_pass_rel [OF p2]
    unfolding list.rel_compp by (rule relcomppI)
  then show ?thesis
    unfolding pl
  proof (rule list_all2_mono)
    fix e e'
    assume "(?R1 OO ?R2) e e'"
    then obtain m where m: "?R1 e m" "?R2 m e'" by blast
    show "fst e' = fst e \<and>
          (\<exists>a. snd e' = fst (reset_player (isInfected (snd e)) rnd (snd e) a))"
    proof (cases "isInfected (snd e)")
      case True
      with m(1) obtain a where a: "snd m = fst (reset_player True rnd (snd e) a)" by auto
      with True have "isInfected (snd m)" by simp
      with m a True show ?thesis by auto
    next
      case False
      with m(1) have "snd m = snd e" by simp
      with m False show ?thesis by auto
    qed
  qed
qed


lemma players_resumeTimer [simp]: "players (resumeTimer s) = players s"
  by (simp add: resumeTimer_def broadcastTimer_def)

lemma first_search_crowd:
  "spawn_search True (\<lambda>_. 0) [] sick_one 0 0 = (Some (Fin 500, Fin 225), 2)"
  by (subst spawn_search.simps)
     (simp add: candidate_def js_mul_def js_floor_def draws_def MAX_SPAWN_ATTEMPTS_def CENTER_ZONE_x_def
        CENTER_ZONE_y_def ARENA_WIDTH_def ARENA_HEIGHT_def)

lemma second_search_crowd:
  "fst (spawn_search True (\<lambda>_. 0)
          [sick_one\<lparr>px := Fin 500, py := Fin 225, collidingWith := None\<rparr>] sick_two 2 0) = None"
  by (simp add: spawn_search_None_iff attempt_overlaps_def candidate_def js_mul_def js_floor_def isOverlapping_def
      PLAYER_SIZE_def CENTER_ZONE_x_def CENTER_ZONE_y_def ARENA_WIDTH_def ARENA_HEIGHT_def)

lemma reset_crowd:
  "players (resetAllPositions (\<lambda>_. 0) crowd_state) =
     [(0, sick_one\<lparr>px := Fin 500, py := Fin 225, collidingWith := None\<rparr>), (1, sick_two)]"
proof -
  have inf: "isInfected sick_one" "isInfected sick_two"
    by (simp_all add: sick_one_def sick_two_def)
  have r1: "reset_player True (\<lambda>_. 0) sick_one (0, []) =
      (sick_one\<lparr>px := Fin 500, py := Fin 225, collidingWith := None\<rparr>,
       (2, [sick_one\<lparr>px := Fin 500, py := Fin 225, collidingWith := None\<rparr>]))"
    by (simp add: reset_player_def first_search_crowd Let_def)
  note r2 = reset_player_None [OF second_search_crowd]
  show ?thesis
    by (simp add: resetAllPositions_def crowd_state_def inf r1 r2)
qed


section \<open>The reset sweep\<close>

lemma fst_reset_pass_Cons:
  "fst (reset_pass infected rnd ((ws, p) # es) acc) =
     (if isInfected p = infected
      then (ws, fst (reset_player infected rnd p acc)) #
             fst (reset_pass infected rnd es (snd (reset_player infected rnd p acc)))
      else (ws, p) # fst (reset_pass infected rnd es acc))"
  by (simp split: prod.splits)

lemma snd_reset_pass_Cons:
  "snd (reset_pass infected rnd ((ws, p) # es) acc) =
     (if isInfected p = infected
      then snd (reset_pass infected rnd es (snd (reset_player infected rnd p acc)))
      else snd (reset_pass infected rnd es acc))"
  by (simp split: prod.splits)

lemma length_reset_pass [simp]:
  "length (fst (reset_pass infected rnd es acc)) = length es"
proof (induction es arbitrary: acc)
  case Nil
  show ?case by simp
next
  case (Cons e es)
  obtain ws p where "e = (ws, p)" by (cases e)
  with Cons show ?case by (simp add: fst_reset_pass_Cons del: reset_pass.simps)
qed

lemma snd_reset_pass:
  "snd (reset_pass infected rnd es acc) =
     fold (\<lambda>q a. snd (reset_player infected rnd q a))
       (filter (\<lambda>q. isInfected q = infected) (map snd es)) acc"
proof (induction es arbitrary: acc)
  case Nil
  show ?case by simp
next
  case (Cons e es)
  obtain ws p where "e = (ws, p)" by (cases e)
  with Cons show ?case by (simp add: snd_reset_pass_Cons del: reset_pass.simps)
qed

lemma others_reset_pass:
  "filter (\<lambda>q. isInfected q \<noteq> infected) (map snd (fst (reset_pass infected rnd es acc))) =
   filter (\<lambda>q. isInfected q \<noteq> infected) (map snd es)"
proof (induction es arbitrary: acc)
  case Nil
  show ?case by simp
next
  case (Cons e es)
  obtain ws p where "e = (ws, p)" by (cases e)
  with Cons show ?case by (simp add: fst_reset_pass_Cons del: reset_pass.simps)
qed

lemma fst_reset_pass_append:
  "fst (reset_pass infected rnd (es1 @ es2) acc) =
     fst (reset_pass infected rnd es1 acc) @
     fst (reset_pass infected rnd es2 (snd (reset_pass infected rnd es1 acc)))"
proof (induction es1 arbitrary: acc)
  case Nil
  show ?case by simp
next
  case (Cons e es)
  obtain ws p where "e = (ws, p)" by (cases e)
  with Cons show ?case
    by (simp add: fst_reset_pass_Cons snd_reset_pass_Cons del: reset_pass.simps)
qed

lemma reset_pass_at:
  "fst (reset_pass infected rnd (es1 @ (ws, p) # es2) acc) ! length es1 =
     (ws, if isInfected p = infected
          then fst (reset_player infected rnd p (snd (reset_pass infected rnd es1 acc)))
          else p)"
  by (simp add: fst_reset_pass_append fst_reset_pass_Cons nth_append del: reset_pass.simps)

lemma reset_pass_split:
  "\<exists>es1' es2'. fst (reset_pass infected rnd (es1 @ (ws, p) # es2) acc) =
       es1' @ (ws, if isInfected p = infected
          then fst (reset_player infected rnd p (snd (reset_pass infected rnd es1 acc)))
          else p) # es2' \<and> length es1' = length es1 \<and>
       filter (\<lambda>q. isInfected q \<noteq> infected) (map snd es1') =
       filter (\<lambda>q. isInfected q \<noteq> infected) (map snd es1)"
  by (simp add: fst_reset_pass_append fst_reset_pass_Cons others_reset_pass del: reset_pass.simps)
     (metis length_reset_pass others_reset_pass)


lemma spawn_search_Some_first:
  "fst (spawn_search infected rnd placedPlayers player k attempts) = Some c \<Longrightarrow>
     \<exists>j. attempts + j < MAX_SPAWN_ATTEMPTS \<and>
         c = candidate infected rnd (k + j * draws infected) \<and>
         \<not> attempt_overlaps infected rnd placedPlayers player (k + j * draws infected) \<and>
         (\<forall>i<j. attempt_overlaps infected rnd placedPlayers player (k + i * draws infected))"
proof (induction infected rnd placedPlayers player k attempts rule: spawn_search.induct)
  case (1 infected rnd placedPlayers player k attempts)
  show ?case
  proof (cases "attempts < MAX_SPAWN_ATTEMPTS")
    case False
    with "1.prems" show ?thesis
      by (subst (asm) spawn_search.simps) simp
  next
    case True
    obtain x y where c: "candidate infected rnd k = (x, y)"
      by (cases "candidate infected rnd k")
    show ?thesis
    proof (cases "attempt_overlaps infected rnd placedPlayers player k")
      case False
      with True c "1.prems" have "c = candidate infected rnd k"
        by (subst (asm) spawn_search.simps) (simp add: attempt_overlaps_def)
      with False True show ?thesis
        by (intro exI [of _ 0]) simp
    next
      case ov: True
      with True c "1.prems" have
        "fst (spawn_search infected rnd placedPlayers player (k + draws infected) (attempts + 1)) = Some c"
        by (subst (asm) spawn_search.simps) (simp add: attempt_overlaps_def)
      moreover from ov c
      have "list_ex (\<lambda>p. isOverlapping (player\<lparr>px := x, py := y\<rparr>) p) placedPlayers"
        by (simp add: attempt_overlaps_def)
      ultimately obtain j where j: "attempts + 1 + j < MAX_SPAWN_ATTEMPTS"
        "c = candidate infected rnd (k + draws infected + j * draws infected)"
        "\<not> attempt_overlaps infected rnd placedPlayers player (k + draws infected + j * draws infected)"
        "\<forall>i<j. attempt_overlaps infected rnd placedPlayers player (k + draws infected + i * draws infected)"
        using "1.IH" [OF True c [symmetric] refl refl] by auto
      have "\<forall>i<Suc j. attempt_overlaps infected rnd placedPlayers player (k + i * draws infected)"
      proof (intro allI impI)
        fix i assume i: "i < Suc j"
        show "attempt_overlaps infected rnd placedPlayers player (k + i * draws infected)"
        proof (cases i)
          case 0
          with ov show ?thesis by simp
        next
          case (Suc i')
          with i j(4) have "attempt_overlaps infected rnd placedPlayers player
                              (k + draws infected + i' * draws infected)" by simp
          with Suc show ?thesis by (simp add: add.assoc)
        qed
      qed
      with j show ?thesis
        by (intro exI [of _ "Suc j"]) (simp add: add.assoc)
    qed
  qed
qed

lemma snd_reset_player:
  "snd (reset_player infected rnd q a) =
     (case spawn_search infected rnd (snd a) q (fst a) 0 of
        (Some (x, y), k') \<Rightarrow> (k', snd a @ [q\<lparr>px := x, py := y, collidingWith := None\<rparr>])
      | (None, k') \<Rightarrow> (k', snd a))"
  by (cases a) (simp add: reset_player_def Let_def split: prod.splits option.splits)

lemma resetAllPositions_at:
  assumes "players s = es1 @ (ws, p) # es2"
  shows "players (resetAllPositions rnd s) ! length es1 =
     (ws, fst (reset_player (isInfected p) rnd p
            (if isInfected p
             then fold (\<lambda>q a. snd (reset_player True rnd q a))
                    (filter isInfected (map snd es1)) (0, [])
             else fold (\<lambda>q a. snd (reset_player False rnd q a))
                    (filter (\<lambda>q. \<not> isInfected q) (map snd es1))
                    (fold (\<lambda>q a. snd (reset_player True rnd q a))
                       (filter isInfected (map snd (players s))) (0, [])))))"
proof -
  let ?acc1 = "snd (reset_pass True rnd (players s) (0, []))"
  let ?p1 = "if isInfected p = True
          then fst (reset_player True rnd p (snd (reset_pass True rnd es1 (0, []))))
          else p"
  have pl: "players (resetAllPositions rnd s) =
            fst (reset_pass False rnd (fst (reset_pass True rnd (players s) (0, []))) ?acc1)"
    by (simp add: resetAllPositions_def split: prod.splits)
  from reset_pass_split [of True rnd es1 ws p es2 "(0, [])"] obtain es1' es2' where
    sp: "fst (reset_pass True rnd (es1 @ (ws, p) # es2) (0, [])) = es1' @ (ws, ?p1) # es2'"
      "length es1' = length es1"
      "filter (\<lambda>q. isInfected q \<noteq> True) (map snd es1') =
       filter (\<lambda>q. isInfected q \<noteq> True) (map snd es1)"
    by blast
  have at: "players (resetAllPositions rnd s) ! length es1 =
      (ws, if isInfected ?p1 = False
          then fst (reset_player False rnd ?p1 (snd (reset_pass False rnd es1' ?acc1)))
          else ?p1)"
    unfolding pl assms sp(1) using reset_pass_at [of False rnd es1' ws ?p1 es2'] sp(2)
    by (simp add: assms)
  show ?thesis
  proof (cases "isInfected p")
    case True
    with at show ?thesis by (simp add: snd_reset_pass)
  next
    case False
    with at sp(3) show ?thesis by (simp add: snd_reset_pass)
  qed
qed


text \<open>
  Claim C10. Take any player \<open>p\<close> of the roster, on channel \<open>ws\<close>, with the entries
  \<open>es1\<close> before it in the map. \<open>resetAllPositions\<close> leaves the map with the same length
  and \<open>ws\<close> at the same place. When the sweep reaches \<open>p\<close>, the stream of draws is at
  \<open>k\<close> and \<open>placedPlayers\<close> holds what the loops have pushed so far: for an infected
  \<open>p\<close>, the infected players before it that were placed; for a healthy \<open>p\<close>, every
  infected player that was placed and then the healthy players before \<open>p\<close> that were
  placed (\<open>place\<close> is what one iteration leaves of the two). If the loop for \<open>p\<close> finds
  a position within its 100 attempts, the record of \<open>p\<close> after the sweep is the old one
  with the new \<open>x\<close> and \<open>y\<close> and with \<open>collidingWith\<close> null, and the position is the
  first of the candidates that overlaps none of \<open>placedPlayers\<close>. If all 100 attempts
  overlap, the record after the sweep is the record before it: the old position and the
  old \<open>collidingWith\<close>.
\<close>

theorem reset_sweep_frame:
  assumes "players s = es1 @ (ws, p) # es2"
  shows
   "let place = (\<lambda>infected q a.
          case spawn_search infected rnd (snd a) q (fst a) 0 of
            (Some (x, y), k') \<Rightarrow> (k', snd a @ [q\<lparr>px := x, py := y, collidingWith := None\<rparr>])
          | (None, k') \<Rightarrow> (k', snd a));
        before =
          (if isInfected p
           then fold (place True) (filter isInfected (map snd es1)) (0, [])
           else fold (place False) (filter (\<lambda>q. \<not> isInfected q) (map snd es1))
                  (fold (place True) (filter isInfected (map snd (players s))) (0, [])));
        k = fst before;
        placedPlayers = snd before;
        d = draws (isInfected p);
        e' = players (resetAllPositions rnd s) ! length es1
    in length (players (resetAllPositions rnd s)) = length (players s) \<and>
       fst e' = ws \<and>
       (case fst (spawn_search (isInfected p) rnd placedPlayers p k 0) of
          Some (x, y) \<Rightarrow>
            snd e' = p\<lparr>px := x, py := y, collidingWith := None\<rparr> \<and>
            (\<exists>j<MAX_SPAWN_ATTEMPTS.
               (x, y) = candidate (isInfected p) rnd (k + j * d) \<and>
               \<not> attempt_overlaps (isInfected p) rnd placedPlayers p (k + j * d) \<and>
               (\<forall>i<j. attempt_overlaps (isInfected p) rnd placedPlayers p (k + i * d)))
        | None \<Rightarrow>
            snd e' = p \<and>
            (\<forall>j<MAX_SPAWN_ATTEMPTS.
               attempt_overlaps (isInfected p) rnd placedPlayers p (k + j * d)))"
proof -
  define place where "place = (\<lambda>infected q a.
          case spawn_search infected rnd (snd a) q (fst a) 0 of
            (Some (x, y), k') \<Rightarrow> (k', snd a @ [q\<lparr>px := x, py := y, collidingWith := None\<rparr>])
          | (None, k') \<Rightarrow> (k', snd a))"
  define before where "before =
          (if isInfected p
           then fold (place True) (filter isInfected (map snd es1)) (0, [])
           else fold (place False) (filter (\<lambda>q. \<not> isInfected q) (map snd es1))
                  (fold (place True) (filter isInfected (map snd (players s))) (0, [])))"
  define k where "k = fst before"
  define placedPlayers where "placedPlayers = snd before"
  define d where "d = draws (isInfected p)"
  define e' where "e' = players (resetAllPositions rnd s) ! length es1"
  have pe: "(\<lambda>q a. snd (reset_player b rnd q a)) = place b" for b
    by (intro ext) (simp add: place_def snd_reset_player)
  have e: "e' = (ws, fst (reset_player (isInfected p) rnd p (k, placedPlayers)))"
    unfolding e'_def resetAllPositions_at [OF assms] pe k_def placedPlayers_def before_def
    by simp
  have len: "length (players (resetAllPositions rnd s)) = length (players s)"
    using resetAllPositions_rel [of rnd s] by (simp add: list_all2_lengthD)
  have body: "case fst (spawn_search (isInfected p) rnd placedPlayers p k 0) of
          Some (x, y) \<Rightarrow>
            snd e' = p\<lparr>px := x, py := y, collidingWith := None\<rparr> \<and>
            (\<exists>j<MAX_SPAWN_ATTEMPTS.
               (x, y) = candidate (isInfected p) rnd (k + j * d) \<and>
               \<not> attempt_overlaps (isInfected p) rnd placedPlayers p (k + j * d) \<and>
               (\<forall>i<j. attempt_overlaps (isInfected p) rnd placedPlayers p (k + i * d)))
        | None \<Rightarrow>
            snd e' = p \<and>
            (\<forall>j<MAX_SPAWN_ATTEMPTS.
               attempt_overlaps (isInfected p) rnd placedPlayers p (k + j * d))"
  proof (cases "fst (spawn_search (isInfected p) rnd placedPlayers p k 0)")
    case None
    with e have "snd e' = p" by (simp add: fst_reset_player)
    moreover from None have "\<forall>j<MAX_SPAWN_ATTEMPTS.
               attempt_overlaps (isInfected p) rnd placedPlayers p (k + j * d)"
      by (simp add: spawn_search_None_iff d_def)
    ultimately show ?thesis using None by simp
  next
    case (Some c)
    obtain x y where c: "c = (x, y)" by (cases c)
    with Some e have "snd e' = p\<lparr>px := x, py := y, collidingWith := None\<rparr>"
      by (simp add: fst_reset_player)
    moreover from spawn_search_Some_first [OF Some] c
    have "\<exists>j<MAX_SPAWN_ATTEMPTS.
               (x, y) = candidate (isInfected p) rnd (k + j * d) \<and>
               \<not> attempt_overlaps (isInfected p) rnd placedPlayers p (k + j * d) \<and>
               (\<forall>i<j. attempt_overlaps (isInfected p) rnd placedPlayers p (k + i * d))"
      by (auto simp: d_def)
    ultimately show ?thesis using Some c by simp
  qed
  from e have "fst e' = ws" by simp
  with len body show ?thesis
    unfolding Let_def e'_def d_def placedPlayers_def k_def before_def place_def
    by blast
qed

theorem reset_sweep_frame_witness:
  "players crowd_state = [] @ (0, sick_one) # [(1, sick_two)] \<and>
   players crowd_state = [(0, sick_one)] @ (1, sick_two) # [] \<and>
   players (resetAllPositions (\<lambda>_. 0) crowd_state) ! 0 =
     (0, sick_one\<lparr>px := Fin 500, py := Fin 225, collidingWith := None\<rparr>) \<and>
   players (resetAllPositions (\<lambda>_. 0) crowd_state) ! 1 = (1, sick_two) \<and>
   collidingWith sick_one = Some ''h'' \<and> collidingWith sick_two = Some ''h''"
proof -
  have inf: "isInfected sick_one" "isInfected sick_two"
    by (simp_all add: sick_one_def sick_two_def)
  have h0: "players crowd_state = [] @ (0, sick_one) # [(1, sick_two)]"
    and h1: "players crowd_state = [(0, sick_one)] @ (1, sick_two) # []"
    by (simp_all add: crowd_state_def)
  have f0: "fst (spawn_search True (\<lambda>_. 0) [] sick_one 0 0) = Some (Fin 500, Fin 225)"
    by (simp add: first_search_crowd)
  from reset_sweep_frame [OF h0, of "\<lambda>_. 0"]
  have a: "fst (players (resetAllPositions (\<lambda>_. 0) crowd_state) ! 0) = 0 \<and>
           snd (players (resetAllPositions (\<lambda>_. 0) crowd_state) ! 0) =
             sick_one\<lparr>px := Fin 500, py := Fin 225, collidingWith := None\<rparr>"
    by (simp add: Let_def inf f0)
  from reset_sweep_frame [OF h1, of "\<lambda>_. 0"]
  have b: "fst (players (resetAllPositions (\<lambda>_. 0) crowd_state) ! 1) = 1 \<and>
           snd (players (resetAllPositions (\<lambda>_. 0) crowd_state) ! 1) = sick_two"
    by (simp add: Let_def inf first_search_crowd second_search_crowd)
  have c: "collidingWith sick_one = Some ''h''" "collidingWith sick_two = Some ''h''"
    by (simp_all add: sick_one_def sick_two_def)
  from a b have "players (resetAllPositions (\<lambda>_. 0) crowd_state) ! 0 =
     (0, sick_one\<lparr>px := Fin 500, py := Fin 225, collidingWith := None\<rparr>)"
    and "players (resetAllPositions (\<lambda>_. 0) crowd_state) ! 1 = (1, sick_two)"
    by (simp_all add: prod_eq_iff)
  with h0 h1 c show ?thesis by blast
qed

section \<open>Exhausting the attempts\<close>

text \<open>
  Claim C5, as the code has it. When all 100 candidates of the join handler overlap a
  player of the roster, the joining player is stored at the fixed fallback: (Fin 568, Fin 268),
  the arena centre minus half the player size, when infected, and (80, 80) when healthy.
  In the reset sweep there is no fallback: a player whose 100 candidates all overlap is
  left exactly as it was and is not added to \<open>placedPlayers\<close>. Neither path fails: both
  are total.
\<close>

theorem spawn_exhaustion:
  "((\<forall>j<MAX_SPAWN_ATTEMPTS.
       attempt_overlaps (isInfected player) rnd (map snd (players s)) player
         (j * draws (isInfected player))) \<longrightarrow>
     map_of (players (handle_join ws player rnd now s)) ws =
       Some (player\<lparr>px := Fin (if isInfected player then 568 else 80),
                    py := Fin (if isInfected player then 268 else 80)\<rparr>)) \<and>
   ((\<forall>j<MAX_SPAWN_ATTEMPTS.
       attempt_overlaps infected rnd placedPlayers p (k + j * draws infected)) \<longrightarrow>
     fst (reset_player infected rnd p (k, placedPlayers)) = p \<and>
     snd (snd (reset_player infected rnd p (k, placedPlayers))) = placedPlayers)"
proof (intro conjI impI)
  assume "\<forall>j<MAX_SPAWN_ATTEMPTS.
       attempt_overlaps (isInfected player) rnd (map snd (players s)) player
         (j * draws (isInfected player))"
  then have "fst (spawn_search (isInfected player) rnd (map snd (players s)) player 0 0) = None"
    by (simp add: spawn_search_None_iff)
  then show "map_of (players (handle_join ws player rnd now s)) ws =
       Some (player\<lparr>px := Fin (if isInfected player then 568 else 80),
                    py := Fin (if isInfected player then 268 else 80)\<rparr>)"
    by (cases "isInfected player")
       (simp_all add: handle_join_def Let_def broadcastPlayersImmediate_def ARENA_WIDTH_def
          ARENA_HEIGHT_def PLAYER_SIZE_def EDGE_MARGIN_def)
next
  assume "\<forall>j<MAX_SPAWN_ATTEMPTS.
       attempt_overlaps infected rnd placedPlayers p (k + j * draws infected)"
  then have n: "fst (spawn_search infected rnd placedPlayers p k 0) = None"
    by (simp add: spawn_search_None_iff)
  from reset_player_None [OF n]
  show "fst (reset_player infected rnd p (k, placedPlayers)) = p"
    and "snd (snd (reset_player infected rnd p (k, placedPlayers))) = placedPlayers"
    by simp_all
qed

theorem spawn_exhaustion_witness:
  "map_of (players (handle_join 1 sick_two (\<lambda>_. 0) 1000 blocked_state)) 1 =
     Some (sick_two\<lparr>px := Fin 568, py := Fin 268\<rparr>) \<and>
   fst (reset_player True (\<lambda>_. 0) sick_two
          (2, [sick_one\<lparr>px := Fin 500, py := Fin 225, collidingWith := None\<rparr>])) = sick_two"
proof -
  have inf: "isInfected sick_two"
    by (simp add: sick_two_def)
  have h1: "\<forall>j<MAX_SPAWN_ATTEMPTS.
       attempt_overlaps (isInfected sick_two) (\<lambda>_. 0) (map snd (players blocked_state))
         sick_two (j * draws (isInfected sick_two))"
    by (simp add: inf attempt_overlaps_def candidate_def js_mul_def js_floor_def isOverlapping_def blocked_state_def
        PLAYER_SIZE_def CENTER_ZONE_x_def CENTER_ZONE_y_def ARENA_WIDTH_def ARENA_HEIGHT_def)
  have h2: "\<forall>j<MAX_SPAWN_ATTEMPTS.
       attempt_overlaps True (\<lambda>_. 0)
         [sick_one\<lparr>px := Fin 500, py := Fin 225, collidingWith := None\<rparr>] sick_two (2 + j * draws True)"
    by (simp add: attempt_overlaps_def candidate_def js_mul_def js_floor_def isOverlapping_def
        PLAYER_SIZE_def CENTER_ZONE_x_def CENTER_ZONE_y_def ARENA_WIDTH_def ARENA_HEIGHT_def)
  note t = spawn_exhaustion [of sick_two "\<lambda>_. 0" blocked_state 1 1000 True
      "[sick_one\<lparr>px := Fin 500, py := Fin 225, collidingWith := None\<rparr>]" sick_two 2]
  from t h1 have a: "map_of (players (handle_join 1 sick_two (\<lambda>_. 0) 1000 blocked_state)) 1 =
       Some (sick_two\<lparr>px := Fin (if isInfected sick_two then 568 else 80),
                    py := Fin (if isInfected sick_two then 268 else 80)\<rparr>)"
    by blast
  from t h2 have b: "fst (reset_player True (\<lambda>_. 0) sick_two
          (2, [sick_one\<lparr>px := Fin 500, py := Fin 225, collidingWith := None\<rparr>])) = sick_two"
    by blast
  from a b inf show ?thesis by simp
qed

text \<open>The claim as stated promises the fallback in the reset sweep too. In the sweep of an
  \<open>answer:correct\<close> message with the draws all 0, the second infected player exhausts its
  attempts against the first and stays at (700, 20).\<close>

theorem reset_no_fallback_counterexample:
  "fst (spawn_search True (\<lambda>_. 0)
          [sick_one\<lparr>px := Fin 500, py := Fin 225, collidingWith := None\<rparr>] sick_two 2 0) = None \<and>
   map_of (players (message 0 AnswerCorrect (\<lambda>_. 0) 1000 crowd_state)) 1 = Some sick_two \<and>
   (px sick_two, py sick_two) \<noteq> (Fin 568, Fin 268)"
proof -
  have "players (message 0 AnswerCorrect (\<lambda>_. 0) 1000 crowd_state) =
        [(0, sick_one\<lparr>px := Fin 500, py := Fin 225, collidingWith := None\<rparr>), (1, sick_two)]"
    by (simp add: handle_answer_correct_def reset_crowd)
  then have "map_of (players (message 0 AnswerCorrect (\<lambda>_. 0) 1000 crowd_state)) 1 = Some sick_two"
    by simp
  moreover have "(px sick_two, py sick_two) \<noteq> (Fin 568, Fin 268)"
    by (simp add: sick_two_def)
  ultimately show ?thesis
    using second_search_crowd by blast
qed

section \<open>The states of the round timer\<close>

lemma timer_fields_handle_move:
  "gameTimer (handle_move ws dx dy isInf now s) = gameTimer s \<and>
   gameRunning (handle_move ws dx dy isInf now s) = gameRunning s \<and>
   timerInterval (handle_move ws dx dy isInf now s) = timerInterval s"
  by (simp add: handle_move_def fold_collideWith Let_def broadcastPlayers_def
      broadcastPlayersImmediate_def split: option.split)

lemma gamePaused_handle_move:
  "map_of (players s) ws = Some p \<Longrightarrow>
   gamePaused (handle_move ws dx dy isInf now s) =
     (gamePaused s \<or>
      filter (\<lambda>e. fst e \<noteq> ws \<and> isColliding (apply_movement dx dy isInf p) (snd e)) (players s) \<noteq> [])"
  by (simp add: handle_move_def fold_collideWith Let_def broadcastPlayers_def
      broadcastPlayersImmediate_def)

lemma timer_fields_broadcasts [simp]:
  "gameTimer (broadcastPlayers t now s) = gameTimer s"
  "gameRunning (broadcastPlayers t now s) = gameRunning s"
  "timerInterval (broadcastPlayers t now s) = timerInterval s"
  "gamePaused (broadcastPlayers t now s) = gamePaused s"
  "gameTimer (broadcastPlayersImmediate t now s) = gameTimer s"
  "gameRunning (broadcastPlayersImmediate t now s) = gameRunning s"
  "timerInterval (broadcastPlayersImmediate t now s) = timerInterval s"
  "gamePaused (broadcastPlayersImmediate t now s) = gamePaused s"
  "gameTimer (resetAllPositions rnd s) = gameTimer s"
  "gameRunning (resetAllPositions rnd s) = gameRunning s"
  "timerInterval (resetAllPositions rnd s) = timerInterval s"
  "gamePaused (resetAllPositions rnd s) = gamePaused s"
  by (simp_all add: broadcastPlayers_def broadcastPlayersImmediate_def resetAllPositions_def
      Let_def split: prod.split)

lemma timer_inv_message: "timer_inv s \<Longrightarrow> timer_inv (message ws m rnd now s)"
proof (cases m)
  case (Move dx dy isInf)
  assume "timer_inv s"
  with Move timer_fields_handle_move [of ws dx dy isInf now s] show ?thesis
    by (simp add: timer_inv_def)
qed (simp_all add: timer_inv_def handle_join_def Let_def startTimer_def stopTimer_def
      broadcastTimer_def handle_gender_def handle_infect_def handle_answer_correct_def
      handle_answer_feedback_def resumeTimer_def)

lemma timer_inv_step: "timer_inv s \<Longrightarrow> step e s = Some s' \<Longrightarrow> timer_inv s'"
proof (cases e)
  case (Message ws m rnd now)
  assume "timer_inv s" "step e s = Some s'"
  with Message timer_inv_message [of s ws m rnd now] show ?thesis by auto
next
  case (Close ws now)
  assume "timer_inv s" "step e s = Some s'"
  with Close show ?thesis by (auto simp: timer_inv_def close_def)
next
  case Tick
  assume "timer_inv s" "step e s = Some s'"
  with Tick show ?thesis
    by (auto simp: timer_inv_def tick_def Let_def stopTimer_def broadcastTimer_def
        split: if_splits)
next
  case (TimeoutFire now)
  assume "timer_inv s" "step e s = Some s'"
  with TimeoutFire show ?thesis
    by (auto simp: timer_inv_def broadcastTimeout_fire_def split: if_splits)
qed

lemma timer_inv_run: "timer_inv s \<Longrightarrow> run evs s = Some s' \<Longrightarrow> timer_inv s'"
proof (induction evs arbitrary: s)
  case Nil
  then show ?case by simp
next
  case (Cons e evs)
  from Cons.prems(2) obtain s1 where s1: "step e s = Some s1" "run evs s1 = Some s'"
    by (auto split: option.splits)
  from timer_inv_step [OF Cons.prems(1) s1(1)] Cons.IH s1(2) show ?case by blast
qed

lemma timer_fields_handle_join [simp]:
  "gameTimer (handle_join ws player rnd now s) = gameTimer s"
  "gameRunning (handle_join ws player rnd now s) = gameRunning s"
  "timerInterval (handle_join ws player rnd now s) = timerInterval s"
  "gamePaused (handle_join ws player rnd now s) = gamePaused s"
  by (simp_all add: handle_join_def Let_def)

lemma healthy_search_idle:
  "spawn_search False (\<lambda>_. 0) [sick_one\<lparr>px := Fin 500, py := Fin 225\<rparr>] demo_player 0 0 =
     (Some (Fin 80, Fin 0), 3)"
  by (subst spawn_search.simps)
     (simp add: candidate_def js_mul_def js_floor_def draws_def MAX_SPAWN_ATTEMPTS_def EDGE_MARGIN_def isOverlapping_def
        PLAYER_SIZE_def ARENA_WIDTH_def ARENA_HEIGHT_def demo_player_def sick_one_def)

lemma idle_collision_joined:
  "players (handle_join 1 demo_player (\<lambda>_. 0) 10
              (handle_join 0 sick_one (\<lambda>_. 0) 0 initial_state)) =
     [(0, sick_one\<lparr>px := Fin 500, py := Fin 225\<rparr>), (1, demo_player\<lparr>px := Fin 80, py := Fin 0\<rparr>)]"
proof -
  have inf: "isInfected sick_one" "\<not> isInfected demo_player"
    by (simp_all add: sick_one_def demo_player_def)
  have s1: "players (handle_join 0 sick_one (\<lambda>_. 0) 0 initial_state) =
              [(0, sick_one\<lparr>px := Fin 500, py := Fin 225\<rparr>)]"
    by (simp add: handle_join_def Let_def inf first_search_crowd broadcastPlayersImmediate_def
        initial_state_def)
  show ?thesis
    by (subst handle_join_def)
       (simp add: Let_def inf s1 healthy_search_idle broadcastPlayersImmediate_def)
qed

lemma idle_collision_run:
  "run idle_collision initial_state =
     Some (handle_move 1 (Number (Fin 420)) (Number (Fin 225)) None 20
             (handle_join 1 demo_player (\<lambda>_. 0) 10
                (handle_join 0 sick_one (\<lambda>_. 0) 0 initial_state)))"
  by (simp add: idle_collision_def)

lemma idle_collision_flags:
  "gameRunning (handle_move 1 (Number (Fin 420)) (Number (Fin 225)) None 20
             (handle_join 1 demo_player (\<lambda>_. 0) 10
                (handle_join 0 sick_one (\<lambda>_. 0) 0 initial_state))) = False \<and>
   gamePaused (handle_move 1 (Number (Fin 420)) (Number (Fin 225)) None 20
             (handle_join 1 demo_player (\<lambda>_. 0) 10
                (handle_join 0 sick_one (\<lambda>_. 0) 0 initial_state))) = True"
proof -
  let ?s2 = "handle_join 1 demo_player (\<lambda>_. 0) 10
                (handle_join 0 sick_one (\<lambda>_. 0) 0 initial_state)"
  have reg: "map_of (players ?s2) 1 = Some (demo_player\<lparr>px := Fin 80, py := Fin 0\<rparr>)"
    by (subst idle_collision_joined) simp
  have hit: "isColliding (apply_movement (Number (Fin 420)) (Number (Fin 225)) None (demo_player\<lparr>px := Fin 80, py := Fin 0\<rparr>))
               (sick_one\<lparr>px := Fin 500, py := Fin 225\<rparr>)"
    by (simp add: isColliding_def apply_movement_def plus_field_def Let_def demo_player_def sick_one_def
        ARENA_WIDTH_def ARENA_HEIGHT_def PLAYER_SIZE_def)
  have "gamePaused (handle_move 1 (Number (Fin 420)) (Number (Fin 225)) None 20 ?s2) =
          (gamePaused ?s2 \<or>
           filter (\<lambda>e. fst e \<noteq> 1 \<and>
                     isColliding (apply_movement (Number (Fin 420)) (Number (Fin 225)) None (demo_player\<lparr>px := Fin 80, py := Fin 0\<rparr>))
                       (snd e)) (players ?s2) \<noteq> [])"
    by (rule gamePaused_handle_move [OF reg])
  then have "gamePaused (handle_move 1 (Number (Fin 420)) (Number (Fin 225)) None 20 ?s2)"
    unfolding idle_collision_joined using hit by simp
  moreover have "\<not> gameRunning (handle_move 1 (Number (Fin 420)) (Number (Fin 225)) None 20 ?s2)"
    using timer_fields_handle_move [of 1 "Number (Fin 420)" "Number (Fin 225)" None 20 ?s2]
    by (simp add: initial_state_def)
  ultimately show ?thesis by simp
qed

text \<open>
  Claim C2, as the code has it. In every state that a sequence of events reaches from the
  initial state, \<open>running\<close> is true exactly when the recurring tick is set, and the
  counter is between 1 and 20. The pair \<open>(running, paused)\<close> is not confined to Idle,
  Running and Paused: \<open>pauseTimer\<close> does not look at \<open>running\<close>, so a collision while no
  round runs reaches \<open>running = false, paused = true\<close>.
\<close>

theorem reachable_timer_states:
  assumes "run evs initial_state = Some s"
  shows "(gameRunning s \<longleftrightarrow> timerInterval s) \<and> 1 \<le> gameTimer s \<and> gameTimer s \<le> 20"
proof -
  have "timer_inv initial_state"
    by (simp add: timer_inv_def initial_state_def)
  from timer_inv_run [OF this assms] show ?thesis
    by (simp add: timer_inv_def)
qed


theorem reachable_timer_states_witness:
  "run idle_collision initial_state =
     Some (handle_move 1 (Number (Fin 420)) (Number (Fin 225)) None 20
             (handle_join 1 demo_player (\<lambda>_. 0) 10
                (handle_join 0 sick_one (\<lambda>_. 0) 0 initial_state))) \<and>
   gameTimer (handle_move 1 (Number (Fin 420)) (Number (Fin 225)) None 20
             (handle_join 1 demo_player (\<lambda>_. 0) 10
                (handle_join 0 sick_one (\<lambda>_. 0) 0 initial_state))) \<le> 20 \<and>
   timerInterval (handle_move 1 (Number (Fin 420)) (Number (Fin 225)) None 20
             (handle_join 1 demo_player (\<lambda>_. 0) 10
                (handle_join 0 sick_one (\<lambda>_. 0) 0 initial_state))) = False"
  using reachable_timer_states [OF idle_collision_run] idle_collision_run idle_collision_flags
  by blast

text \<open>The claim as stated has \<open>paused = true\<close> imply \<open>running = true\<close>; the trace
  \<^term>\<open>idle_collision\<close> ends with \<open>running = false\<close> and \<open>paused = true\<close>.\<close>

theorem paused_while_idle_counterexample:
  "map_option (\<lambda>s. (gameRunning s, gamePaused s)) (run idle_collision initial_state) =
     Some (False, True)"
  using idle_collision_flags by (simp add: idle_collision_run)

section \<open>The broadcast throttler\<close>









section \<open>The channels of the map\<close>

text \<open>
  A JavaScript \<open>Map\<close> holds each key once. The association list of the model keeps that
  property along every sequence of events, so the lists about which the collision pass
  is stated, those with distinct channels, include every state the server reaches.
\<close>

lemma keys_players_set: "fst ` set (players_set ws p es) = insert ws (fst ` set es)"
  by (induction es) force+

lemma map_fst_conditional_update [simp]:
  "map (fst \<circ> (\<lambda>e. if c e then (fst e, g e) else e)) es = map fst es"
  by (induction es) auto

lemma distinct_players_set:
  "distinct (map fst es) \<Longrightarrow> distinct (map fst (players_set ws p es))"
proof (induction es)
  case Nil
  show ?case by simp
next
  case (Cons e es)
  obtain k v where e: "e = (k, v)" by (cases e)
  show ?case
  proof (cases "k = ws")
    case True
    with Cons.prems e show ?thesis by simp
  next
    case False
    with Cons e keys_players_set [of ws p es] show ?thesis by auto
  qed
qed

lemma map_fst_marked [simp]: "map (fst \<circ> marked i K) es = map fst es"
  by (induction es) (auto simp: marked_def)

lemma map_fst_resetAllPositions [simp]:
  "map fst (players (resetAllPositions rnd s)) = map fst (players s)"
proof -
  have "list_all2 (\<lambda>e e'. fst e = fst e') (players s) (players (resetAllPositions rnd s))"
    by (rule list_all2_mono [OF resetAllPositions_rel]) simp
  then have "list_all2 (=) (map fst (players s)) (map fst (players (resetAllPositions rnd s)))"
    by (simp add: list_all2_map1 list_all2_map2)
  then show ?thesis by (simp add: list.rel_eq)
qed

lemma players_handle_move:
  "map_of (players s) ws = Some p \<Longrightarrow>
   \<exists>m K. players (handle_move ws dx dy isInf now s) =
           players_set ws m (map (marked (pid (apply_movement dx dy isInf p)) K) (players s))"
  by (simp add: handle_move_def fold_collideWith Let_def) blast

lemma distinct_message:
  assumes "distinct (map fst (players s))"
  shows "distinct (map fst (players (message ws m rnd now s)))"
proof (cases m)
  case (Join player)
  with assms show ?thesis
    by (simp add: handle_join_def Let_def broadcastPlayersImmediate_def distinct_players_set)
next
  case (PlayerGender playerId g)
  from assms PlayerGender show ?thesis
    by (simp add: handle_gender_def broadcastPlayersImmediate_def)
next
  case (Move dx dy isInf)
  show ?thesis
  proof (cases "map_of (players s) ws")
    case None
    with assms Move show ?thesis by (simp add: handle_move_def)
  next
    case (Some p)
    from players_handle_move [OF Some, of dx dy isInf now] obtain m' K where
      pl: "players (handle_move ws dx dy isInf now s) =
           players_set ws m' (map (marked (pid (apply_movement dx dy isInf p)) K) (players s))"
      by blast
    from assms have "distinct (map fst (map (marked (pid (apply_movement dx dy isInf p)) K) (players s)))"
      by simp
    then have "distinct (map fst (players (handle_move ws dx dy isInf now s)))"
      unfolding pl by (rule distinct_players_set)
    with Move show ?thesis by simp
  qed
next
  case (PlayerInfect playerId)
  from assms PlayerInfect show ?thesis
    by (simp add: handle_infect_def)
qed (use assms in \<open>simp_all add: startTimer_def stopTimer_def broadcastTimer_def
      handle_answer_correct_def handle_answer_feedback_def\<close>)

lemma distinct_step:
  "distinct (map fst (players s)) \<Longrightarrow> step e s = Some s' \<Longrightarrow> distinct (map fst (players s'))"
proof (cases e)
  case (Message ws m rnd now)
  assume "distinct (map fst (players s))" "step e s = Some s'"
  with Message distinct_message [of s ws m rnd now] show ?thesis by auto
next
  case (Close ws now)
  assume "distinct (map fst (players s))" "step e s = Some s'"
  with Close show ?thesis
    by (auto simp: close_def broadcastPlayersImmediate_def players_delete_def distinct_map_filter)
next
  case Tick
  assume "distinct (map fst (players s))" "step e s = Some s'"
  with Tick show ?thesis
    by (auto simp: tick_def Let_def stopTimer_def broadcastTimer_def split: if_splits)
next
  case (TimeoutFire now)
  assume "distinct (map fst (players s))" "step e s = Some s'"
  with TimeoutFire show ?thesis
    by (auto simp: broadcastTimeout_fire_def broadcastPlayersImmediate_def split: if_splits)
qed

lemma distinct_run:
  "distinct (map fst (players s)) \<Longrightarrow> run evs s = Some s' \<Longrightarrow> distinct (map fst (players s'))"
proof (induction evs arbitrary: s)
  case Nil
  then show ?case by simp
next
  case (Cons e evs)
  from Cons.prems(2) obtain s1 where s1: "step e s = Some s1" "run evs s1 = Some s'"
    by (auto split: option.splits)
  from distinct_step [OF Cons.prems(1) s1(1)] Cons.IH s1(2) show ?case by blast
qed

lemma reachable_distinct_channels:
  "run evs initial_state = Some s \<Longrightarrow> distinct (map fst (players s))"
  using distinct_run [of initial_state evs s] by (simp add: initial_state_def)

end
